theory Spec2Isabelle
  imports Main "HOL-Library.Multiset"
begin

unbundle bit_operations_syntax

section \<open>Python values\<close>

text \<open>
  Python integers are unbounded and every integer the two modules handle is non-negative
  (\<^verbatim>\<open>range(256)\<close>, \<^verbatim>\<open>ord\<close>, the elements of \<^verbatim>\<open>bytes\<close>, masked sums), so they
  are modelled as \<^typ>\<open>nat\<close>; \<^verbatim>\<open>x & 0xFF\<close> is \<open>x AND 0xFF\<close>, \<^verbatim>\<open>x ^ y\<close> is \<open>x XOR y\<close>,
  \<^verbatim>\<open>x << n\<close> is \<open>push_bit n x\<close> and \<^verbatim>\<open>x >> n\<close> is \<open>drop_bit n x\<close>.
  A Python list, \<^verbatim>\<open>bytes\<close> or \<^verbatim>\<open>bytearray\<close> is a \<^typ>\<open>nat list\<close>.
  Exceptions are values of \<open>py_error\<close>; a call that may raise returns \<open>py_error + 'a\<close>.
\<close>

datatype py_error =
  ZeroDivisionError | AssertionError | ValueError | UnicodeEncodeError | UnicodeDecodeError

text \<open>The key argument: a \<^verbatim>\<open>str\<close> (its code points) or a byte sequence.\<close>

datatype pykey = Str "nat list" | Bytes "nat list"

text \<open>\<^verbatim>\<open>len(key)\<close>.\<close>

fun key_len :: "pykey \<Rightarrow> nat" where
  "key_len (Str cs) = length cs"
| "key_len (Bytes bs) = length bs"

text \<open>The code points of a literal whose characters are all below 256.\<close>

definition py_str :: "string \<Rightarrow> nat list" where
  "py_str cs = map of_char cs"

text \<open>\<^verbatim>\<open>a % b\<close> raises on a zero divisor.\<close>

definition py_mod :: "nat \<Rightarrow> nat \<Rightarrow> py_error + nat" where
  "py_mod a b = (if b = 0 then Inl ZeroDivisionError else Inr (a mod b))"

text \<open>
  \<^verbatim>\<open>bytes([...])\<close> and a store into a \<^verbatim>\<open>bytearray\<close> raise \<^verbatim>\<open>ValueError\<close> for an
  element outside \<^verbatim>\<open>range(256)\<close>.
\<close>

definition py_bytes :: "nat list \<Rightarrow> py_error + nat list" where
  "py_bytes xs = (if list_all (\<lambda>x. x < 256) xs then Inr xs else Inl ValueError)"

text \<open>\<^verbatim>\<open>s[a], s[b] = s[b], s[a]\<close>: the right-hand side is read first, then both stores run.\<close>

definition swap :: "nat list \<Rightarrow> nat \<Rightarrow> nat \<Rightarrow> nat list" where
  "swap s a b = s[a := s ! b, b := s ! a]"

subsection \<open>UTF-8, as \<^verbatim>\<open>str.encode('utf8')\<close> and \<^verbatim>\<open>bytes.decode('utf8')\<close> do it\<close>

definition utf8_encode_char :: "nat \<Rightarrow> py_error + nat list" where
  "utf8_encode_char c =
     (if c < 0x80 then Inr [c]
      else if c < 0x800 then Inr [0xC0 + c div 64, 0x80 + c mod 64]
      else if c < 0x10000 then
        (if 0xD800 \<le> c \<and> c \<le> 0xDFFF then Inl UnicodeEncodeError
         else Inr [0xE0 + c div 4096, 0x80 + (c div 64) mod 64, 0x80 + c mod 64])
      else if c < 0x110000 then
        Inr [0xF0 + c div 262144, 0x80 + (c div 4096) mod 64,
             0x80 + (c div 64) mod 64, 0x80 + c mod 64]
      else Inl UnicodeEncodeError)"

fun utf8_encode :: "nat list \<Rightarrow> py_error + nat list" where
  "utf8_encode [] = Inr []"
| "utf8_encode (c # cs) =
     (case utf8_encode_char c of
        Inl e \<Rightarrow> Inl e
      | Inr bs \<Rightarrow> (case utf8_encode cs of Inl e \<Rightarrow> Inl e | Inr rest \<Rightarrow> Inr (bs @ rest)))"

definition is_cont :: "nat \<Rightarrow> bool" where
  "is_cont b = (0x80 \<le> b \<and> b \<le> 0xBF)"

definition decoded :: "nat \<Rightarrow> py_error + nat list \<Rightarrow> py_error + nat list" where
  "decoded c r = (case r of Inl e \<Rightarrow> Inl e | Inr cs \<Rightarrow> Inr (c # cs))"

fun utf8_decode :: "nat list \<Rightarrow> py_error + nat list" where
  "utf8_decode [] = Inr []"
| "utf8_decode (b0 # bs) =
     (if b0 < 0x80 then decoded b0 (utf8_decode bs)
      else if 0xC2 \<le> b0 \<and> b0 \<le> 0xDF then
        (case bs of
           b1 # r \<Rightarrow>
             if is_cont b1 then decoded ((b0 - 0xC0) * 64 + (b1 - 0x80)) (utf8_decode r)
             else Inl UnicodeDecodeError
         | _ \<Rightarrow> Inl UnicodeDecodeError)
      else if 0xE0 \<le> b0 \<and> b0 \<le> 0xEF then
        (case bs of
           b1 # b2 # r \<Rightarrow>
             if (if b0 = 0xE0 then 0xA0 else 0x80) \<le> b1
                \<and> b1 \<le> (if b0 = 0xED then 0x9F else 0xBF) \<and> is_cont b2
             then decoded ((b0 - 0xE0) * 4096 + (b1 - 0x80) * 64 + (b2 - 0x80)) (utf8_decode r)
             else Inl UnicodeDecodeError
         | _ \<Rightarrow> Inl UnicodeDecodeError)
      else if 0xF0 \<le> b0 \<and> b0 \<le> 0xF4 then
        (case bs of
           b1 # b2 # b3 # r \<Rightarrow>
             if (if b0 = 0xF0 then 0x90 else 0x80) \<le> b1
                \<and> b1 \<le> (if b0 = 0xF4 then 0x8F else 0xBF) \<and> is_cont b2 \<and> is_cont b3
             then decoded ((b0 - 0xF0) * 262144 + (b1 - 0x80) * 4096 + (b2 - 0x80) * 64
                           + (b3 - 0x80)) (utf8_decode r)
             else Inl UnicodeDecodeError
         | _ \<Rightarrow> Inl UnicodeDecodeError)
      else Inl UnicodeDecodeError)"

section \<open>rc4_class.py\<close>

subsection \<open>\<^verbatim>\<open>RC4.KSA\<close>\<close>

text \<open>
  \<^verbatim>\<open>if isinstance(key, str): key = [ord(char) for char in key]\<close>; a byte sequence is
  indexed as it is.
\<close>

fun key_ords :: "pykey \<Rightarrow> nat list" where
  "key_ords (Str cs) = cs"
| "key_ords (Bytes bs) = bs"

text \<open>
  The loop \<^verbatim>\<open>for i in range(256)\<close> over the remaining values of \<open>i\<close>, with the running
  \<open>j\<close> and \<open>s\<close>. \<^verbatim>\<open>i % key_length\<close> is the one operation of the body that can raise.
\<close>

fun KSA_loop :: "nat list \<Rightarrow> nat list \<Rightarrow> nat \<Rightarrow> nat list \<Rightarrow> py_error + nat list" where
  "KSA_loop key [] j s = Inr s"
| "KSA_loop key (i # is) j s =
     (case py_mod i (length key) of
        Inl e \<Rightarrow> Inl e
      | Inr m \<Rightarrow>
          (let j' = (j + s ! i + key ! m) AND 0xFF
           in KSA_loop key is j' (swap s i j')))"

definition KSA :: "pykey \<Rightarrow> py_error + nat list" where
  "KSA key = KSA_loop (key_ords key) [0..<256] 0 [0..<256]"

subsection \<open>Instances\<close>

record rc4_state =
  self_i :: nat
  self_j :: nat
  self_s :: "nat list"

record rc4a_state = rc4_state +
  self_S2 :: "nat list"
  self_j2 :: nat
  self_first_op :: bool

text \<open>An instance of one of the five classes; the subclasses other than RC4A add no field.\<close>

datatype cipher =
  RC4_obj rc4_state
| RC4A_obj rc4a_state
| VMPC_obj rc4_state
| RCPlus_obj rc4_state
| RCDrop_obj rc4_state

subsection \<open>The PRGA methods\<close>

text \<open>
  Every \<^verbatim>\<open>PRGA\<close> is \<^verbatim>\<open>key_stream = []; for _ in range(size): <body>;
  key_stream.append(k); return key_stream\<close>. \<open>PRGA_loop\<close> is that loop over a body that
  returns \<open>k\<close> and the updated fields.
\<close>

text \<open>
  Reads and stores of the S-box are written with \<open>!\<close> and list update. An index is either
  masked to \<open>0..255\<close> on the spot, or the counter \<open>i\<close> (0 at construction, masked at every
  change), or an entry of the S-box; the S-box has 256 entries, all below 256, in every
  state an instance can be in (\<open>PRGA_ok\<close>, \<open>VMPC_body_in_range\<close> and
  \<open>RCPlus_indices_bounded\<close> below), so Python's \<^verbatim>\<open>IndexError\<close> has no branch here.
\<close>

fun PRGA_loop :: "('st \<Rightarrow> nat \<times> 'st) \<Rightarrow> nat \<Rightarrow> 'st \<Rightarrow> nat list \<times> 'st" where
  "PRGA_loop body 0 st = ([], st)"
| "PRGA_loop body (Suc n) st =
     (case body st of (k, st') \<Rightarrow>
        (case PRGA_loop body n st' of (ks, st'') \<Rightarrow> (k # ks, st'')))"

definition RC4_PRGA_body :: "rc4_state \<Rightarrow> nat \<times> rc4_state" where
  "RC4_PRGA_body st =
     (let i = (self_i st + 1) AND 0xFF;
          j = (self_j st + self_s st ! i) AND 0xFF;
          s = swap (self_s st) i j;
          k = s ! ((s ! i + s ! j) AND 0xFF)
      in (k, st\<lparr>self_i := i, self_j := j, self_s := s\<rparr>))"

definition RC4_PRGA :: "nat \<Rightarrow> rc4_state \<Rightarrow> nat list \<times> rc4_state" where
  "RC4_PRGA sz st = PRGA_loop RC4_PRGA_body sz st"

definition RC4A_PRGA_body :: "rc4a_state \<Rightarrow> nat \<times> rc4a_state" where
  "RC4A_PRGA_body st =
     (if self_first_op st then
        (let i = (self_i st + 1) AND 0xFF;
             j = (self_j st + self_s st ! i) AND 0xFF;
             s = swap (self_s st) i j;
             k = self_S2 st ! ((s ! i + s ! j) AND 0xFF)
         in (k, st\<lparr>self_first_op := False, self_i := i, self_j := j, self_s := s\<rparr>))
      else
        (let j2 = (self_j2 st + self_S2 st ! self_i st) AND 0xFF;
             S2 = swap (self_S2 st) (self_i st) j2;
             k = self_s st ! ((S2 ! self_i st + S2 ! j2) AND 0xFF)
         in (k, st\<lparr>self_first_op := True, self_j2 := j2, self_S2 := S2\<rparr>)))"

definition RC4A_PRGA :: "nat \<Rightarrow> rc4a_state \<Rightarrow> nat list \<times> rc4a_state" where
  "RC4A_PRGA sz st = PRGA_loop RC4A_PRGA_body sz st"

definition VMPC_PRGA_body :: "rc4_state \<Rightarrow> nat \<times> rc4_state" where
  "VMPC_PRGA_body st =
     (let a = self_s st ! self_i st;
          j = self_s st ! ((self_j st + a) AND 0xFF);
          b = self_s st ! j;
          k = self_s st ! ((self_s st ! b + 1) AND 0xFF);
          s1 = (self_s st)[self_i st := b];
          s2 = s1[j := a];
          i = (self_i st + 1) AND 0xFF
      in (k, st\<lparr>self_j := j, self_s := s2, self_i := i\<rparr>))"

definition VMPC_PRGA :: "nat \<Rightarrow> rc4_state \<Rightarrow> nat list \<times> rc4_state" where
  "VMPC_PRGA sz st = PRGA_loop VMPC_PRGA_body sz st"

text \<open>
  In Python \<^verbatim>\<open><<\<close> and \<^verbatim>\<open>>>\<close> bind tighter than \<^verbatim>\<open>&\<close>, which binds tighter than
  \<^verbatim>\<open>^\<close>; the parentheses below are the ones Python's grammar puts.
\<close>

definition RCPlus_PRGA_body :: "rc4_state \<Rightarrow> nat \<times> rc4_state" where
  "RCPlus_PRGA_body st =
     (let i = (self_i st + 1) AND 0xFF;
          a = self_s st ! i;
          j = (self_j st + a) AND 0xFF;
          b = self_s st ! j;
          s1 = (self_s st)[i := b];
          s = s1[j := a];
          v = ((push_bit 5 i) XOR (drop_bit 3 j)) AND 0xFF;
          w = ((push_bit 5 j) XOR (drop_bit 3 i)) AND 0xFF;
          c = (s ! v + s ! j + s ! w) AND 0xFF;
          k = ((s ! ((a + b) mod 256) + s ! (c XOR 0xAA)) AND 0xFF) XOR s ! ((j + b) AND 0xFF)
      in (k, st\<lparr>self_i := i, self_j := j, self_s := s\<rparr>))"

definition RCPlus_PRGA :: "nat \<Rightarrow> rc4_state \<Rightarrow> nat list \<times> rc4_state" where
  "RCPlus_PRGA sz st = PRGA_loop RCPlus_PRGA_body sz st"

text \<open>\<^verbatim>\<open>self.PRGA(size)\<close>: the method of the instance's class; RCDrop inherits RC4's.\<close>

fun PRGA :: "nat \<Rightarrow> cipher \<Rightarrow> nat list \<times> cipher" where
  "PRGA sz (RC4_obj st) = (case RC4_PRGA sz st of (ks, st') \<Rightarrow> (ks, RC4_obj st'))"
| "PRGA sz (RC4A_obj st) = (case RC4A_PRGA sz st of (ks, st') \<Rightarrow> (ks, RC4A_obj st'))"
| "PRGA sz (VMPC_obj st) = (case VMPC_PRGA sz st of (ks, st') \<Rightarrow> (ks, VMPC_obj st'))"
| "PRGA sz (RCPlus_obj st) = (case RCPlus_PRGA sz st of (ks, st') \<Rightarrow> (ks, RCPlus_obj st'))"
| "PRGA sz (RCDrop_obj st) = (case RC4_PRGA sz st of (ks, st') \<Rightarrow> (ks, RCDrop_obj st'))"

subsection \<open>The constructors\<close>

text \<open>\<^verbatim>\<open>RC4.__init__\<close>: the fields every class starts from.\<close>

definition RC4_fields :: "pykey \<Rightarrow> py_error + rc4_state" where
  "RC4_fields key =
     (case KSA key of
        Inl e \<Rightarrow> Inl e
      | Inr s \<Rightarrow> Inr \<lparr>self_i = 0, self_j = 0, self_s = s\<rparr>)"

text \<open>\<^verbatim>\<open>if skip > 0: self.PRGA(skip)\<close>, the key stream dropped.\<close>

definition warm_up :: "nat \<Rightarrow> cipher \<Rightarrow> cipher" where
  "warm_up skip self = (if skip > 0 then snd (PRGA skip self) else self)"

definition RC4_init :: "pykey \<Rightarrow> py_error + cipher" where
  "RC4_init key = (case RC4_fields key of Inl e \<Rightarrow> Inl e | Inr st \<Rightarrow> Inr (RC4_obj st))"

definition RC4A_init :: "pykey \<Rightarrow> nat \<Rightarrow> py_error + cipher" where
  "RC4A_init key skip =
     (case RC4_fields key of
        Inl e \<Rightarrow> Inl e
      | Inr st \<Rightarrow>
          (case KSA key of
             Inl e \<Rightarrow> Inl e
           | Inr S2 \<Rightarrow>
               Inr (warm_up skip (RC4A_obj
                 \<lparr>self_i = self_i st, self_j = self_j st, self_s = self_s st,
                  self_S2 = S2, self_j2 = 0, self_first_op = True\<rparr>))))"

definition VMPC_init :: "pykey \<Rightarrow> nat \<Rightarrow> py_error + cipher" where
  "VMPC_init key skip =
     (case RC4_fields key of Inl e \<Rightarrow> Inl e | Inr st \<Rightarrow> Inr (warm_up skip (VMPC_obj st)))"

definition RCPlus_init :: "pykey \<Rightarrow> nat \<Rightarrow> py_error + cipher" where
  "RCPlus_init key skip =
     (case RC4_fields key of Inl e \<Rightarrow> Inl e | Inr st \<Rightarrow> Inr (warm_up skip (RCPlus_obj st)))"

definition RCDrop_init :: "pykey \<Rightarrow> nat \<Rightarrow> py_error + cipher" where
  "RCDrop_init key skip =
     (case RC4_fields key of Inl e \<Rightarrow> Inl e | Inr st \<Rightarrow> Inr (warm_up skip (RCDrop_obj st)))"

text \<open>\<^verbatim>\<open>RCDrop(key)\<close>, with the default \<^verbatim>\<open>skip=768\<close>.\<close>

definition RCDrop_default :: "pykey \<Rightarrow> py_error + cipher" where
  "RCDrop_default key = RCDrop_init key 768"

subsection \<open>\<^verbatim>\<open>encode_decode\<close>, \<^verbatim>\<open>encode_str\<close>, \<^verbatim>\<open>decode_str\<close>\<close>

definition encode_decode :: "cipher \<Rightarrow> nat list \<Rightarrow> py_error + nat list \<times> cipher" where
  "encode_decode self content_bytes =
     (case PRGA (length content_bytes) self of
        (key_stream, self') \<Rightarrow>
          (case py_bytes (map (\<lambda>i. content_bytes ! i XOR key_stream ! i)
                              [0..<length content_bytes]) of
             Inl e \<Rightarrow> Inl e
           | Inr out \<Rightarrow> Inr (out, self')))"

definition encode_str :: "cipher \<Rightarrow> nat list \<Rightarrow> py_error + nat list \<times> cipher" where
  "encode_str self input_str =
     (case utf8_encode input_str of
        Inl e \<Rightarrow> Inl e
      | Inr bs \<Rightarrow> encode_decode self bs)"

definition decode_str :: "cipher \<Rightarrow> nat list \<Rightarrow> py_error + nat list \<times> cipher" where
  "decode_str self input_bytes =
     (case encode_decode self input_bytes of
        Inl e \<Rightarrow> Inl e
      | Inr (out, self') \<Rightarrow>
          (case utf8_decode out of Inl e \<Rightarrow> Inl e | Inr cs \<Rightarrow> Inr (cs, self')))"

section \<open>rc4_single_function.py\<close>

text \<open>
  The three \<^verbatim>\<open>isinstance\<close> checks of \<^verbatim>\<open>rc4\<close> are about the types of the arguments
  and are discharged by the types of the model: the key is a \<open>pykey\<close>, the input and the
  initialization vector are byte sequences.
\<close>

text \<open>
  \<^verbatim>\<open>(510 + sum(c << i for i, c in enumerate(initialization_vector[:16]))) & 0xFFFF\<close>
\<close>

definition rc4_skip :: "nat list \<Rightarrow> nat" where
  "rc4_skip initialization_vector =
     (510 + sum_list (map (\<lambda>(i, c). push_bit i c)
                          (enumerate 0 (take 16 initialization_vector)))) AND 0xFFFF"

text \<open>The function's own S-box loop, \<^verbatim>\<open>for i in range(256)\<close>.\<close>

fun rc4_sbox_loop :: "nat list \<Rightarrow> nat list \<Rightarrow> nat \<Rightarrow> nat list \<Rightarrow> py_error + nat list" where
  "rc4_sbox_loop key [] j s = Inr s"
| "rc4_sbox_loop key (i # is) j s =
     (case py_mod i (length key) of
        Inl e \<Rightarrow> Inl e
      | Inr m \<Rightarrow>
          (let j' = (j + s ! i + key ! m) AND 0xFF
           in rc4_sbox_loop key is j' (swap s i j')))"

text \<open>\<^verbatim>\<open>for _ in range(skip)\<close>: the state moves, nothing is put out.\<close>

fun rc4_skip_loop :: "nat \<Rightarrow> nat \<Rightarrow> nat \<Rightarrow> nat list \<Rightarrow> nat \<times> nat \<times> nat list" where
  "rc4_skip_loop 0 i j s = (i, j, s)"
| "rc4_skip_loop (Suc n) i j s =
     (let i' = (i + 1) AND 0xFF;
          j' = (j + s ! i') AND 0xFF
      in rc4_skip_loop n i' j' (swap s i' j'))"

text \<open>
  \<^verbatim>\<open>for idx in range(len(output_bytes))\<close>, with the store
  \<^verbatim>\<open>output_bytes[idx] ^= s[(s[i] + s[j]) & 0xFF]\<close> into the \<^verbatim>\<open>bytearray\<close>.
\<close>

fun rc4_xor_loop :: "nat list \<Rightarrow> nat \<Rightarrow> nat \<Rightarrow> nat list \<Rightarrow> nat list \<Rightarrow> py_error + nat list" where
  "rc4_xor_loop [] i j s output_bytes = Inr output_bytes"
| "rc4_xor_loop (idx # idxs) i j s output_bytes =
     (let i' = (i + 1) AND 0xFF;
          j' = (j + s ! i') AND 0xFF;
          s' = swap s i' j';
          b = output_bytes ! idx XOR s' ! ((s' ! i' + s' ! j') AND 0xFF)
      in if b < 256 then rc4_xor_loop idxs i' j' s' (output_bytes[idx := b])
         else Inl ValueError)"

definition rc4 :: "pykey \<Rightarrow> nat list \<Rightarrow> nat list \<Rightarrow> py_error + nat list" where
  "rc4 key input_bytes initialization_vector =
     (if \<not> key_len key > 0 then Inl AssertionError
      else
        (let key' = (case key of Str cs \<Rightarrow> take 256 cs | Bytes bs \<Rightarrow> bs) in
         case rc4_sbox_loop key' [0..<256] 0 [0..<256] of
           Inl e \<Rightarrow> Inl e
         | Inr s \<Rightarrow>
             (case (if initialization_vector \<noteq> []
                    then rc4_skip_loop (rc4_skip initialization_vector) 0 0 s
                    else (0, 0, s)) of
                (i, j, s') \<Rightarrow>
                  rc4_xor_loop [0..<length input_bytes] i j s' input_bytes)))"

section \<open>The algorithms as the specification words them\<close>

text \<open>
  Second definitions, written from the specification's sentences (sections 4.1 to 4.5 and
  4.8) with \<open>mod 256\<close> for its wrap-around, to be compared with the code above.
\<close>

text \<open>``swap \<open>S[a]\<close> and \<open>S[b]\<close>'': the two entries trade places, the others stay.\<close>

definition spec_swap :: "nat list \<Rightarrow> nat \<Rightarrow> nat \<Rightarrow> nat list" where
  "spec_swap S a b =
     map (\<lambda>n. if n = a then S ! b else if n = b then S ! a else S ! n) [0..<length S]"

text \<open>
  4.1: \<open>S[n] = n\<close> for \<open>n\<close> in \<open>0..255\<close>, \<open>j = 0\<close>, and for \<open>i = 0..255\<close>:
  \<open>j = (j + S[i] + key[i mod L]) mod 256\<close>, swap \<open>S[i]\<close> and \<open>S[j]\<close>.
\<close>

definition spec_KSA_round :: "nat list \<Rightarrow> nat \<Rightarrow> nat \<times> nat list \<Rightarrow> nat \<times> nat list" where
  "spec_KSA_round key i jS =
     (let j = (fst jS + snd jS ! i + key ! (i mod length key)) mod 256
      in (j, spec_swap (snd jS) i j))"

definition spec_KSA :: "nat list \<Rightarrow> nat list" where
  "spec_KSA key = snd (fold (spec_KSA_round key) [0..<256] (0, map (\<lambda>n. n) [0..<256]))"

text \<open>4.2: one output byte of baseline RC4, from \<open>(i, j, S)\<close>.\<close>

definition spec_RC4_step :: "nat \<times> nat \<times> nat list \<Rightarrow> nat \<times> nat \<times> nat \<times> nat list" where
  "spec_RC4_step x =
     (case x of (i0, j0, S0) \<Rightarrow>
        let i = (i0 + 1) mod 256;
            j = (j0 + S0 ! i) mod 256;
            S = spec_swap S0 i j
        in (S ! ((S ! i + S ! j) mod 256), i, j, S))"

text \<open>The fields of an instance with one S-box, read as the specification's state.\<close>

definition spec_of_rc4 :: "rc4_state \<Rightarrow> nat \<times> nat \<times> nat list" where
  "spec_of_rc4 st = (self_i st, self_j st, self_s st)"

text \<open>4.3: RC4A, from the phase, \<open>i\<close>, \<open>j\<close>, \<open>j2\<close>, \<open>S\<close> and \<open>S2\<close>.\<close>

datatype phase = First_phase | Second_phase

type_synonym spec_rc4a = "phase \<times> nat \<times> nat \<times> nat \<times> nat list \<times> nat list"

definition spec_RC4A_step :: "spec_rc4a \<Rightarrow> nat \<times> spec_rc4a" where
  "spec_RC4A_step x =
     (case x of (ph, i0, j0, j20, S0, S20) \<Rightarrow>
        (case ph of
           First_phase \<Rightarrow>
             let i = (i0 + 1) mod 256;
                 j = (j0 + S0 ! i) mod 256;
                 S = spec_swap S0 i j
             in (S20 ! ((S ! i + S ! j) mod 256), (Second_phase, i, j, j20, S, S20))
         | Second_phase \<Rightarrow>
             let j2 = (j20 + S20 ! i0) mod 256;
                 S2 = spec_swap S20 i0 j2
             in (S0 ! ((S2 ! i0 + S2 ! j2) mod 256), (First_phase, i0, j0, j2, S0, S2))))"

text \<open>The fields of an RC4A instance, read as the specification's state.\<close>

definition spec_of_rc4a :: "rc4a_state \<Rightarrow> spec_rc4a" where
  "spec_of_rc4a st =
     ((if self_first_op st then First_phase else Second_phase),
      self_i st, self_j st, self_j2 st, self_s st, self_S2 st)"

text \<open>4.4: VMPC, from \<open>(i, j, S)\<close>.\<close>

definition spec_VMPC_step :: "nat \<times> nat \<times> nat list \<Rightarrow> nat \<times> nat \<times> nat \<times> nat list" where
  "spec_VMPC_step x =
     (case x of (i0, j0, S0) \<Rightarrow>
        let a = S0 ! i0;
            j = S0 ! ((j0 + a) mod 256);
            b = S0 ! j;
            k = S0 ! ((S0 ! b + 1) mod 256);
            S = (S0[i0 := b])[j := a]
        in (k, (i0 + 1) mod 256, j, S))"

text \<open>4.5: RC4+, from \<open>(i, j, S)\<close>.\<close>

definition spec_RCPlus_step :: "nat \<times> nat \<times> nat list \<Rightarrow> nat \<times> nat \<times> nat \<times> nat list" where
  "spec_RCPlus_step x =
     (case x of (i0, j0, S0) \<Rightarrow>
        let i = (i0 + 1) mod 256;
            a = S0 ! i;
            j = (j0 + a) mod 256;
            b = S0 ! j;
            S = (S0[i := b])[j := a];
            v = (push_bit 5 i XOR drop_bit 3 j) mod 256;
            w = (push_bit 5 j XOR drop_bit 3 i) mod 256;
            c = (S ! v + S ! j + S ! w) mod 256;
            k = ((S ! ((a + b) mod 256) + S ! (c XOR 0xAA)) mod 256) XOR S ! ((j + b) mod 256)
        in (k, i, j, S))"

text \<open>The indices at which one RC4+ step reads or writes the S-box, in the order of the body.\<close>

definition RCPlus_indices :: "rc4_state \<Rightarrow> nat list" where
  "RCPlus_indices st =
     (let i = (self_i st + 1) AND 0xFF;
          a = self_s st ! i;
          j = (self_j st + a) AND 0xFF;
          b = self_s st ! j;
          s = ((self_s st)[i := b])[j := a];
          v = ((push_bit 5 i) XOR (drop_bit 3 j)) AND 0xFF;
          w = ((push_bit 5 j) XOR (drop_bit 3 i)) AND 0xFF;
          c = (s ! v + s ! j + s ! w) AND 0xFF
      in [i, j, v, w, (a + b) mod 256, c XOR 0xAA, (j + b) AND 0xFF])"

text \<open>
  4.8: the skip count, \<open>(510 + \<Sum> iv[k] << k for k in 0..len(iv)-1) mod 65536\<close>, over at most
  the first 16 bytes.
\<close>

definition spec_skip :: "nat list \<Rightarrow> nat" where
  "spec_skip iv = (510 + (\<Sum>k<min 16 (length iv). iv ! k * 2 ^ k)) mod 65536"

section \<open>The S-box invariant\<close>

text \<open>A permutation of \<open>0..255\<close>: 256 entries, no duplicates, all values present.\<close>

definition is_permutation :: "nat list \<Rightarrow> bool" where
  "is_permutation s \<longleftrightarrow> length s = 256 \<and> distinct s \<and> set s = {0..<256}"

text \<open>The states an instance can be in: permutations, and counters below 256.\<close>

definition rc4_ok :: "rc4_state \<Rightarrow> bool" where
  "rc4_ok st \<longleftrightarrow> is_permutation (self_s st) \<and> self_i st < 256 \<and> self_j st < 256"

definition rc4a_ok :: "rc4a_state \<Rightarrow> bool" where
  "rc4a_ok st \<longleftrightarrow>
     is_permutation (self_s st) \<and> is_permutation (self_S2 st)
     \<and> self_i st < 256 \<and> self_j st < 256 \<and> self_j2 st < 256"

fun cipher_ok :: "cipher \<Rightarrow> bool" where
  "cipher_ok (RC4_obj st) = rc4_ok st"
| "cipher_ok (RC4A_obj st) = rc4a_ok st"
| "cipher_ok (VMPC_obj st) = rc4_ok st"
| "cipher_ok (RCPlus_obj st) = rc4_ok st"
| "cipher_ok (RCDrop_obj st) = rc4_ok st"

section \<open>Indexed tries: the S-box in a form the simplifier can run\<close>

text \<open>
  Nothing in this section is part of the program. To run the doctests inside the logic the
  256 entries are kept in a binary trie indexed by the bits of the position, lowest bit
  first, and each PRGA body is restated on tries, one statement a stage. The lemmas
  \<open>KSA_ev\<close>, \<open>RC4_PRGA_ev\<close>, \<open>RC4A_PRGA_ev\<close>, \<open>VMPC_PRGA_ev\<close> and \<open>RCPlus_PRGA_ev\<close>
  prove that these evaluators return what the methods above return on the list \<open>tlist t\<close>.
\<close>

datatype trie = Tip nat | Br trie trie

fun tget :: "trie \<Rightarrow> nat \<Rightarrow> nat" where
  "tget (Tip x) n = x"
| "tget (Br l r) n = (if even n then tget l (n div 2) else tget r (n div 2))"

fun tput :: "trie \<Rightarrow> nat \<Rightarrow> nat \<Rightarrow> trie" where
  "tput (Tip x) n v = Tip v"
| "tput (Br l r) n v =
     (if even n then Br (tput l (n div 2) v) r else Br l (tput r (n div 2) v))"

fun tfull :: "nat \<Rightarrow> trie \<Rightarrow> bool" where
  "tfull 0 (Tip x) = True"
| "tfull (Suc d) (Br l r) = (tfull d l \<and> tfull d r)"
| "tfull _ _ = False"

fun ident :: "nat \<Rightarrow> nat \<Rightarrow> nat \<Rightarrow> trie" where
  "ident 0 step off = Tip off"
| "ident (Suc d) step off = Br (ident d (2 * step) off) (ident d (2 * step) (off + step))"

definition tlist :: "trie \<Rightarrow> nat list" where
  "tlist t = map (tget t) [0..<256]"

definition tswap :: "trie \<Rightarrow> nat \<Rightarrow> nat \<Rightarrow> trie" where
  "tswap t a b = tput (tput t a (tget t b)) b (tget t a)"

subsection \<open>Evaluators on tries\<close>

type_synonym ev3 = "nat \<times> nat \<times> trie"
type_synonym ev6 = "bool \<times> nat \<times> nat \<times> nat \<times> trie \<times> trie"

definition sbox0 :: trie where
  "sbox0 = ident 8 1 0"

definition abs_rc4 :: "ev3 \<Rightarrow> rc4_state" where
  "abs_rc4 x = (case x of (i, j, t) \<Rightarrow> \<lparr>self_i = i, self_j = j, self_s = tlist t\<rparr>)"

definition abs_rc4a :: "ev6 \<Rightarrow> rc4a_state" where
  "abs_rc4a x = (case x of (f, i, j, j2, t, t2) \<Rightarrow>
     \<lparr>self_i = i, self_j = j, self_s = tlist t,
      self_S2 = tlist t2, self_j2 = j2, self_first_op = f\<rparr>)"

definition tinv3 :: "ev3 \<Rightarrow> bool" where
  "tinv3 x = (case x of (i, j, t) \<Rightarrow> tfull 8 t)"

definition tinv6 :: "ev6 \<Rightarrow> bool" where
  "tinv6 x = (case x of (f, i, j, j2, t, t2) \<Rightarrow> tfull 8 t \<and> tfull 8 t2)"

text \<open>Key scheduling: \<open>n\<close> rounds from round \<open>i\<close>.\<close>

fun ev_KSA :: "nat list \<Rightarrow> nat \<Rightarrow> nat \<Rightarrow> nat \<Rightarrow> trie \<Rightarrow> trie" where
  "ev_KSA key 0 i j t = t"
| "ev_KSA key (Suc n) i j t =
     (let j' = (j + tget t i + key ! (i mod length key)) AND 0xFF
      in ev_KSA key n (i + 1) j' (tswap t i j'))"

definition ev_KSA_swap :: "nat list \<Rightarrow> nat \<Rightarrow> nat \<Rightarrow> nat \<Rightarrow> trie \<Rightarrow> trie" where
  "ev_KSA_swap key n i j t = ev_KSA key n (i + 1) j (tswap t i j)"

text \<open>The loop of a PRGA: the key stream of \<open>n\<close> steps, and the state after \<open>n\<close> steps.\<close>

fun ev_run :: "('x \<Rightarrow> nat \<times> 'x) \<Rightarrow> nat \<Rightarrow> 'x \<Rightarrow> nat list" where
  "ev_run body 0 x = []"
| "ev_run body (Suc n) x = fst (body x) # ev_run body n (snd (body x))"

definition ev_emit :: "('x \<Rightarrow> nat \<times> 'x) \<Rightarrow> nat \<Rightarrow> nat \<times> 'x \<Rightarrow> nat list" where
  "ev_emit body n r = fst r # ev_run body n (snd r)"

fun ev_skip :: "('x \<Rightarrow> nat \<times> 'x) \<Rightarrow> nat \<Rightarrow> 'x \<Rightarrow> 'x" where
  "ev_skip body 0 x = x"
| "ev_skip body (Suc n) x = ev_skip body n (snd (body x))"

definition ev_drop :: "('x \<Rightarrow> nat \<times> 'x) \<Rightarrow> nat \<Rightarrow> nat \<times> 'x \<Rightarrow> 'x" where
  "ev_drop body n r = ev_skip body n (snd r)"

text \<open>The body of \<^verbatim>\<open>RC4.PRGA\<close>, one statement a stage.\<close>

definition ev_RC4_out :: "nat \<Rightarrow> nat \<Rightarrow> trie \<Rightarrow> nat \<times> ev3" where
  "ev_RC4_out i j t = (tget t ((tget t i + tget t j) AND 0xFF), i, j, t)"

definition ev_RC4_swap :: "nat \<Rightarrow> nat \<Rightarrow> trie \<Rightarrow> nat \<times> ev3" where
  "ev_RC4_swap i j t = ev_RC4_out i j (tswap t i j)"

definition ev_RC4_j :: "nat \<Rightarrow> nat \<Rightarrow> trie \<Rightarrow> nat \<times> ev3" where
  "ev_RC4_j i j t = ev_RC4_swap i ((j + tget t i) AND 0xFF) t"

fun ev_RC4 :: "ev3 \<Rightarrow> nat \<times> ev3" where
  "ev_RC4 (i, j, t) = ev_RC4_j ((i + 1) AND 0xFF) j t"

text \<open>The body of \<^verbatim>\<open>RC4A.PRGA\<close>.\<close>

definition ev_RC4A_out :: "nat \<Rightarrow> nat \<Rightarrow> nat \<Rightarrow> trie \<Rightarrow> trie \<Rightarrow> nat \<times> ev6" where
  "ev_RC4A_out i j j2 t t2 = (tget t2 ((tget t i + tget t j) AND 0xFF), False, i, j, j2, t, t2)"

definition ev_RC4A_swap :: "nat \<Rightarrow> nat \<Rightarrow> nat \<Rightarrow> trie \<Rightarrow> trie \<Rightarrow> nat \<times> ev6" where
  "ev_RC4A_swap i j j2 t t2 = ev_RC4A_out i j j2 (tswap t i j) t2"

definition ev_RC4A_j :: "nat \<Rightarrow> nat \<Rightarrow> nat \<Rightarrow> trie \<Rightarrow> trie \<Rightarrow> nat \<times> ev6" where
  "ev_RC4A_j i j j2 t t2 = ev_RC4A_swap i ((j + tget t i) AND 0xFF) j2 t t2"

definition ev_RC4A_out2 :: "nat \<Rightarrow> nat \<Rightarrow> nat \<Rightarrow> trie \<Rightarrow> trie \<Rightarrow> nat \<times> ev6" where
  "ev_RC4A_out2 i j j2 t t2 = (tget t ((tget t2 i + tget t2 j2) AND 0xFF), True, i, j, j2, t, t2)"

definition ev_RC4A_swap2 :: "nat \<Rightarrow> nat \<Rightarrow> nat \<Rightarrow> trie \<Rightarrow> trie \<Rightarrow> nat \<times> ev6" where
  "ev_RC4A_swap2 i j j2 t t2 = ev_RC4A_out2 i j j2 t (tswap t2 i j2)"

fun ev_RC4A :: "ev6 \<Rightarrow> nat \<times> ev6" where
  "ev_RC4A (True, i, j, j2, t, t2) = ev_RC4A_j ((i + 1) AND 0xFF) j j2 t t2"
| "ev_RC4A (False, i, j, j2, t, t2) = ev_RC4A_swap2 i j ((j2 + tget t2 i) AND 0xFF) t t2"

text \<open>The body of \<^verbatim>\<open>VMPC.PRGA\<close>.\<close>

definition ev_VMPC_out :: "nat \<Rightarrow> nat \<Rightarrow> nat \<Rightarrow> nat \<Rightarrow> trie \<Rightarrow> nat \<times> ev3" where
  "ev_VMPC_out i a b j t =
     (tget t ((tget t b + 1) AND 0xFF), (i + 1) AND 0xFF, j, tput (tput t i b) j a)"

definition ev_VMPC_b :: "nat \<Rightarrow> nat \<Rightarrow> nat \<Rightarrow> trie \<Rightarrow> nat \<times> ev3" where
  "ev_VMPC_b i a j t = ev_VMPC_out i a (tget t j) j t"

definition ev_VMPC_j :: "nat \<Rightarrow> nat \<Rightarrow> nat \<Rightarrow> trie \<Rightarrow> nat \<times> ev3" where
  "ev_VMPC_j i a j t = ev_VMPC_b i a (tget t ((j + a) AND 0xFF)) t"

fun ev_VMPC :: "ev3 \<Rightarrow> nat \<times> ev3" where
  "ev_VMPC (i, j, t) = ev_VMPC_j i (tget t i) j t"

text \<open>The body of \<^verbatim>\<open>RCPlus.PRGA\<close>.\<close>

definition ev_RCPlus_k :: "nat \<Rightarrow> nat \<Rightarrow> nat \<Rightarrow> nat \<Rightarrow> nat \<Rightarrow> trie \<Rightarrow> nat \<times> ev3" where
  "ev_RCPlus_k i a b j c t =
     (((tget t ((a + b) mod 256) + tget t (c XOR 0xAA)) AND 0xFF) XOR tget t ((j + b) AND 0xFF),
      i, j, t)"

definition ev_RCPlus_c :: "nat \<Rightarrow> nat \<Rightarrow> nat \<Rightarrow> nat \<Rightarrow> trie \<Rightarrow> nat \<times> ev3" where
  "ev_RCPlus_c i a b j t =
     ev_RCPlus_k i a b j
       ((tget t (((push_bit 5 i) XOR (drop_bit 3 j)) AND 0xFF) + tget t j
         + tget t (((push_bit 5 j) XOR (drop_bit 3 i)) AND 0xFF)) AND 0xFF) t"

definition ev_RCPlus_s :: "nat \<Rightarrow> nat \<Rightarrow> nat \<Rightarrow> nat \<Rightarrow> trie \<Rightarrow> nat \<times> ev3" where
  "ev_RCPlus_s i a b j t = ev_RCPlus_c i a b j (tput (tput t i b) j a)"

definition ev_RCPlus_b :: "nat \<Rightarrow> nat \<Rightarrow> nat \<Rightarrow> trie \<Rightarrow> nat \<times> ev3" where
  "ev_RCPlus_b i a j t = ev_RCPlus_s i a (tget t j) j t"

definition ev_RCPlus_j :: "nat \<Rightarrow> nat \<Rightarrow> nat \<Rightarrow> trie \<Rightarrow> nat \<times> ev3" where
  "ev_RCPlus_j i a j t = ev_RCPlus_b i a ((j + a) AND 0xFF) t"

definition ev_RCPlus_a :: "nat \<Rightarrow> nat \<Rightarrow> trie \<Rightarrow> nat \<times> ev3" where
  "ev_RCPlus_a i j t = ev_RCPlus_j i (tget t i) j t"

fun ev_RCPlus :: "ev3 \<Rightarrow> nat \<times> ev3" where
  "ev_RCPlus (i, j, t) = ev_RCPlus_a ((i + 1) AND 0xFF) j t"

text \<open>The S-box of the key \<^verbatim>\<open>'key'\<close> of the doctests, as key scheduling leaves it.\<close>

definition key_sbox :: trie where
  "key_sbox =
     Br (Br (Br (Br (Br (Br (Br (Br (Tip 107) (Tip 155)) (Br (Tip 113) (Tip 103))) (Br (Br (Tip
     39) (Tip 74)) (Br (Tip 205) (Tip 177)))) (Br (Br (Br (Tip 253) (Tip 49)) (Br (Tip 248) (Tip
     139))) (Br (Br (Tip 97) (Tip 67)) (Br (Tip 28) (Tip 26))))) (Br (Br (Br (Br (Tip 255) (Tip
     3)) (Br (Tip 185) (Tip 136))) (Br (Br (Tip 174) (Tip 16)) (Br (Tip 153) (Tip 164)))) (Br (Br
     (Br (Tip 211) (Tip 178)) (Br (Tip 11) (Tip 20))) (Br (Br (Tip 23) (Tip 145)) (Br (Tip 162)
     (Tip 165)))))) (Br (Br (Br (Br (Br (Tip 35) (Tip 245)) (Br (Tip 120) (Tip 223))) (Br (Br
     (Tip 70) (Tip 51)) (Br (Tip 50) (Tip 93)))) (Br (Br (Br (Tip 100) (Tip 118)) (Br (Tip 0)
     (Tip 12))) (Br (Br (Tip 19) (Tip 249)) (Br (Tip 55) (Tip 233))))) (Br (Br (Br (Br (Tip 84)
     (Tip 230)) (Br (Tip 18) (Tip 141))) (Br (Br (Tip 187) (Tip 219)) (Br (Tip 240) (Tip 98))))
     (Br (Br (Br (Tip 235) (Tip 197)) (Br (Tip 159) (Tip 119))) (Br (Br (Tip 175) (Tip 151)) (Br
     (Tip 9) (Tip 238))))))) (Br (Br (Br (Br (Br (Br (Tip 95) (Tip 90)) (Br (Tip 216) (Tip 241)))
     (Br (Br (Tip 96) (Tip 171)) (Br (Tip 31) (Tip 132)))) (Br (Br (Br (Tip 192) (Tip 166)) (Br
     (Tip 75) (Tip 154))) (Br (Br (Tip 33) (Tip 140)) (Br (Tip 101) (Tip 1))))) (Br (Br (Br (Br
     (Tip 130) (Tip 81)) (Br (Tip 190) (Tip 10))) (Br (Br (Tip 44) (Tip 194)) (Br (Tip 143) (Tip
     239)))) (Br (Br (Br (Tip 228) (Tip 201)) (Br (Tip 30) (Tip 189))) (Br (Br (Tip 123) (Tip
     212)) (Br (Tip 186) (Tip 8)))))) (Br (Br (Br (Br (Br (Tip 131) (Tip 222)) (Br (Tip 110) (Tip
     40))) (Br (Br (Tip 203) (Tip 45)) (Br (Tip 246) (Tip 224)))) (Br (Br (Br (Tip 6) (Tip 7))
     (Br (Tip 57) (Tip 217))) (Br (Br (Tip 135) (Tip 133)) (Br (Tip 210) (Tip 232))))) (Br (Br
     (Br (Br (Tip 214) (Tip 102)) (Br (Tip 163) (Tip 109))) (Br (Br (Tip 226) (Tip 150)) (Br (Tip
     36) (Tip 54)))) (Br (Br (Br (Tip 46) (Tip 24)) (Br (Tip 160) (Tip 73))) (Br (Br (Tip 59)
     (Tip 218)) (Br (Tip 53) (Tip 99)))))))) (Br (Br (Br (Br (Br (Br (Br (Tip 195) (Tip 82)) (Br
     (Tip 78) (Tip 215))) (Br (Br (Tip 179) (Tip 220)) (Br (Tip 188) (Tip 158)))) (Br (Br (Br
     (Tip 234) (Tip 200)) (Br (Tip 180) (Tip 244))) (Br (Br (Tip 247) (Tip 183)) (Br (Tip 124)
     (Tip 4))))) (Br (Br (Br (Br (Tip 115) (Tip 76)) (Br (Tip 22) (Tip 112))) (Br (Br (Tip 25)
     (Tip 58)) (Br (Tip 206) (Tip 91)))) (Br (Br (Br (Tip 17) (Tip 72)) (Br (Tip 92) (Tip 252)))
     (Br (Br (Tip 32) (Tip 79)) (Br (Tip 156) (Tip 41)))))) (Br (Br (Br (Br (Br (Tip 161) (Tip
     116)) (Br (Tip 170) (Tip 167))) (Br (Br (Tip 85) (Tip 60)) (Br (Tip 176) (Tip 86)))) (Br (Br
     (Br (Tip 69) (Tip 66)) (Br (Tip 208) (Tip 236))) (Br (Br (Tip 114) (Tip 117)) (Br (Tip 191)
     (Tip 225))))) (Br (Br (Br (Br (Tip 77) (Tip 134)) (Br (Tip 104) (Tip 169))) (Br (Br (Tip 37)
     (Tip 251)) (Br (Tip 146) (Tip 202)))) (Br (Br (Br (Tip 129) (Tip 144)) (Br (Tip 204) (Tip
     221))) (Br (Br (Tip 68) (Tip 152)) (Br (Tip 184) (Tip 121))))))) (Br (Br (Br (Br (Br (Br
     (Tip 122) (Tip 71)) (Br (Tip 128) (Tip 149))) (Br (Br (Tip 29) (Tip 207)) (Br (Tip 63) (Tip
     231)))) (Br (Br (Br (Tip 56) (Tip 88)) (Br (Tip 172) (Tip 38))) (Br (Br (Tip 64) (Tip 61))
     (Br (Tip 242) (Tip 94))))) (Br (Br (Br (Br (Tip 227) (Tip 148)) (Br (Tip 127) (Tip 111)))
     (Br (Br (Tip 65) (Tip 168)) (Br (Tip 181) (Tip 83)))) (Br (Br (Br (Tip 106) (Tip 47)) (Br
     (Tip 27) (Tip 229))) (Br (Br (Tip 87) (Tip 243)) (Br (Tip 157) (Tip 80)))))) (Br (Br (Br (Br
     (Br (Tip 126) (Tip 254)) (Br (Tip 2) (Tip 199))) (Br (Br (Tip 250) (Tip 209)) (Br (Tip 125)
     (Tip 48)))) (Br (Br (Br (Tip 15) (Tip 213)) (Br (Tip 182) (Tip 137))) (Br (Br (Tip 196) (Tip
     89)) (Br (Tip 138) (Tip 43))))) (Br (Br (Br (Br (Tip 173) (Tip 237)) (Br (Tip 5) (Tip 198)))
     (Br (Br (Tip 62) (Tip 14)) (Br (Tip 193) (Tip 13)))) (Br (Br (Br (Tip 142) (Tip 42)) (Br
     (Tip 105) (Tip 34))) (Br (Br (Tip 52) (Tip 108)) (Br (Tip 21) (Tip 147))))))))"

section \<open>Tries and lists\<close>

lemma tfull_tput: "tfull d t \<Longrightarrow> tfull d (tput t n v)"
  by (induction d t arbitrary: n rule: tfull.induct) auto

lemma tget_tput:
  "tfull d t \<Longrightarrow> n < 2 ^ d \<Longrightarrow> m < 2 ^ d \<Longrightarrow>
     tget (tput t n v) m = (if m = n then v else tget t m)"
proof (induction d t arbitrary: n m rule: tfull.induct)
  case (2 d l r)
  have half: "n div 2 < 2 ^ d" "m div 2 < 2 ^ d"
    using "2.prems" by auto
  have ne: "m \<noteq> n \<Longrightarrow> even m = even n \<Longrightarrow> m div 2 \<noteq> n div 2"
    by (metis bit_eq_rec)
  show ?case
    using "2.prems"(1) "2.IH"(1)[OF _ half] "2.IH"(2)[OF _ half] ne
    by auto
qed simp_all

lemma tlist_nth: "n < 256 \<Longrightarrow> tlist t ! n = tget t n"
  by (simp add: tlist_def)

lemma length_tlist: "length (tlist t) = 256"
  by (simp add: tlist_def)

lemma tlist_tput:
  assumes "tfull 8 t" "n < 256"
  shows "tlist (tput t n v) = (tlist t)[n := v]"
proof (rule nth_equalityI)
  show "length (tlist (tput t n v)) = length ((tlist t)[n := v])"
    by (simp add: length_tlist)
next
  fix m assume "m < length (tlist (tput t n v))"
  then have m: "m < 256" by (simp add: length_tlist)
  have "tget (tput t n v) m = (if m = n then v else tget t m)"
    using tget_tput[OF assms(1), of n m v] assms(2) m by simp
  then show "tlist (tput t n v) ! m = (tlist t)[n := v] ! m"
    using m by (simp add: tlist_nth length_tlist nth_list_update)
qed

lemma tlist_tswap:
  assumes "tfull 8 t" "a < 256" "b < 256"
  shows "tlist (tswap t a b) = swap (tlist t) a b"
  using assms by (simp add: tswap_def swap_def tlist_tput tfull_tput tlist_nth)

lemma tfull_tswap: "tfull d t \<Longrightarrow> tfull d (tswap t a b)"
  by (simp add: tswap_def tfull_tput)

lemma tfull_ident: "tfull d (ident d step off)"
  by (induction d step off rule: ident.induct) auto

lemma tget_ident: "n < 2 ^ d \<Longrightarrow> tget (ident d step off) n = off + step * n"
proof (induction d step off arbitrary: n rule: ident.induct)
  case (2 d step off)
  have half: "n div 2 < 2 ^ d" using "2.prems" by auto
  show ?case
  proof (cases "even n")
    case True
    then have "2 * (n div 2) = n" by simp
    then have "2 * step * (n div 2) = step * n" by (metis mult.assoc mult.left_commute)
    with True "2.IH"(1)[OF half] show ?thesis by simp
  next
    case False
    then have "2 * (n div 2) + 1 = n" by simp
    then have "step + 2 * step * (n div 2) = step * n"
      by (metis add.commute distrib_left mult.assoc mult.left_commute mult.right_neutral)
    with False "2.IH"(2)[OF half] show ?thesis by simp
  qed
qed simp

lemma tlist_ident: "tlist (ident 8 1 0) = [0..<256]"
  by (rule nth_equalityI) (simp_all add: length_tlist tlist_nth tget_ident)

section \<open>Masks\<close>

lemma and_255_mod: "(x::nat) AND 0xFF = x mod 256"
proof -
  have "(x::nat) AND 0xFF = x AND mask 8" by (simp add: mask_eq_exp_minus_1)
  also have "\<dots> = take_bit 8 x" by (simp add: take_bit_eq_mask)
  also have "\<dots> = x mod 256" by (simp add: take_bit_eq_mod)
  finally show ?thesis .
qed

lemma and_255_less [simp]: "(x::nat) AND 0xFF < 256"
  by (simp add: and_255_mod)

lemma and_65535_mod: "(x::nat) AND 0xFFFF = x mod 65536"
proof -
  have "(x::nat) AND 0xFFFF = x AND mask 16" by (simp add: mask_eq_exp_minus_1)
  also have "\<dots> = take_bit 16 x" by (simp add: take_bit_eq_mask)
  also have "\<dots> = x mod 65536" by (simp add: take_bit_eq_mod)
  finally show ?thesis .
qed

lemma xor_less_256: "(a::nat) < 256 \<Longrightarrow> b < 256 \<Longrightarrow> a XOR b < 256"
proof -
  assume "a < 256" "b < 256"
  then have "take_bit 8 a = a" "take_bit 8 b = b"
    by (simp_all add: take_bit_nat_eq_self_iff)
  then have "take_bit 8 (a XOR b) = a XOR b"
    by (metis take_bit_xor)
  then have "a XOR b < 2 ^ 8"
    by (metis take_bit_nat_eq_self_iff)
  then show ?thesis by simp
qed

lemma xor_xor_cancel: "((a::nat) XOR b) XOR b = a"
  by (simp add: xor.assoc)

section \<open>Permutations and swaps\<close>

lemma is_permutation_mset: "is_permutation s \<longleftrightarrow> mset s = mset [0..<256]"
proof
  assume "is_permutation s"
  then have "distinct s" "set s = set [0..<256]"
    by (simp_all add: is_permutation_def)
  then show "mset s = mset [0..<256]"
    by (metis distinct_upt set_eq_iff_mset_eq_distinct)
next
  assume m: "mset s = mset [0..<256]"
  then have "length s = 256" by (metis length_upt mset_eq_length diff_zero)
  moreover have "distinct s" using m by (metis distinct_upt mset_eq_imp_distinct_iff)
  moreover have "set s = {0..<256}" using m by (metis mset_eq_setD set_upt)
  ultimately show "is_permutation s" by (simp add: is_permutation_def)
qed

lemma is_permutation_upt: "is_permutation [0..<256]"
  by (simp add: is_permutation_mset)

lemma is_permutation_length: "is_permutation s \<Longrightarrow> length s = 256"
  by (simp add: is_permutation_def)

lemma is_permutation_nth: "is_permutation s \<Longrightarrow> n < 256 \<Longrightarrow> s ! n < 256"
proof -
  assume p: "is_permutation s" and n: "n < 256"
  then have "n < length s" by (simp add: is_permutation_def)
  then have "s ! n \<in> set s" by (rule nth_mem)
  then show ?thesis using p unfolding is_permutation_def by auto
qed

lemma is_permutation_swap:
  "is_permutation s \<Longrightarrow> a < 256 \<Longrightarrow> b < 256 \<Longrightarrow> is_permutation (swap s a b)"
proof -
  assume p: "is_permutation s" and ab: "a < 256" "b < 256"
  then have len: "a < length s" "b < length s" by (simp_all add: is_permutation_def)
  have "mset (swap s a b) = mset s"
    unfolding swap_def using mset_swap[OF len(2) len(1)] by simp
  then show ?thesis using p by (simp add: is_permutation_mset)
qed

lemma spec_swap_eq: "spec_swap s a b = swap s a b"
  by (rule nth_equalityI) (auto simp: spec_swap_def swap_def nth_list_update)

section \<open>Key scheduling\<close>

lemma KSA_loop_empty_key: "is \<noteq> [] \<Longrightarrow> KSA_loop [] is j s = Inl ZeroDivisionError"
  by (cases "is") (simp_all add: py_mod_def)

lemma KSA_loop_permutation:
  "key \<noteq> [] \<Longrightarrow> is_permutation s \<Longrightarrow> list_all (\<lambda>i. i < 256) is \<Longrightarrow>
     \<exists>s'. KSA_loop key is j s = Inr s' \<and> is_permutation s'"
proof (induction "is" arbitrary: j s)
  case Nil
  then show ?case by simp
next
  case (Cons i "is")
  let ?j = "(j + s ! i + key ! (i mod length key)) AND 0xFF"
  have "is_permutation (swap s i ?j)"
    using Cons.prems by (simp add: is_permutation_swap)
  from Cons.IH[OF Cons.prems(1) this, of ?j] Cons.prems show ?case
    by (simp add: py_mod_def Let_def)
qed

lemma list_all_upt: "list_all (\<lambda>i. i < n) [0..<n]"
  by (simp add: list_all_iff)

lemma KSA_permutation:
  "key_ords key \<noteq> [] \<Longrightarrow> \<exists>s. KSA key = Inr s \<and> is_permutation s"
  unfolding KSA_def
  by (rule KSA_loop_permutation) (simp_all add: is_permutation_upt list_all_upt)

lemma fold_spec_KSA:
  "key \<noteq> [] \<Longrightarrow>
     KSA_loop key is j s = Inr (snd (fold (spec_KSA_round key) is (j, s)))"
  by (induction "is" arbitrary: j s)
     (simp_all add: py_mod_def Let_def spec_KSA_round_def spec_swap_eq and_255_mod)

lemma KSA_spec: "key_ords key \<noteq> [] \<Longrightarrow> KSA key = Inr (spec_KSA (key_ords key))"
  by (simp add: KSA_def spec_KSA_def fold_spec_KSA)

lemma rc4_sbox_loop_KSA_loop: "rc4_sbox_loop key is j s = KSA_loop key is j s"
  by (induction "is" arbitrary: j s) (simp_all add: Let_def split: sum.splits)

section \<open>One step of each PRGA keeps the invariant\<close>

lemma update_update_swap: "(s[i := s ! j])[j := s ! i] = swap s i j"
  by (simp add: swap_def)

lemma RC4_body_ok: "rc4_ok st \<Longrightarrow> rc4_ok (snd (RC4_PRGA_body st))"
  by (simp add: rc4_ok_def RC4_PRGA_body_def Let_def is_permutation_swap)

lemma RC4A_body_ok: "rc4a_ok st \<Longrightarrow> rc4a_ok (snd (RC4A_PRGA_body st))"
  by (simp add: rc4a_ok_def RC4A_PRGA_body_def Let_def is_permutation_swap)

lemma VMPC_body_ok: "rc4_ok st \<Longrightarrow> rc4_ok (snd (VMPC_PRGA_body st))"
  by (simp add: rc4_ok_def VMPC_PRGA_body_def Let_def update_update_swap
      is_permutation_swap is_permutation_nth)

lemma RCPlus_body_ok: "rc4_ok st \<Longrightarrow> rc4_ok (snd (RCPlus_PRGA_body st))"
  by (simp add: rc4_ok_def RCPlus_PRGA_body_def Let_def update_update_swap
      is_permutation_swap)

lemma VMPC_body_in_range:
  "rc4_ok st \<Longrightarrow>
     (let a = self_s st ! self_i st;
          j = self_s st ! ((self_j st + a) AND 0xFF);
          b = self_s st ! j
      in self_i st < 256 \<and> j < 256 \<and> b < 256)"
  by (simp add: rc4_ok_def Let_def is_permutation_nth)

lemma RC4_body_out: "rc4_ok st \<Longrightarrow> fst (RC4_PRGA_body st) < 256"
  by (simp add: rc4_ok_def RC4_PRGA_body_def Let_def is_permutation_swap is_permutation_nth)

lemma RC4A_body_out: "rc4a_ok st \<Longrightarrow> fst (RC4A_PRGA_body st) < 256"
  by (simp add: rc4a_ok_def RC4A_PRGA_body_def Let_def is_permutation_swap is_permutation_nth)

lemma VMPC_body_out: "rc4_ok st \<Longrightarrow> fst (VMPC_PRGA_body st) < 256"
  by (simp add: rc4_ok_def VMPC_PRGA_body_def Let_def is_permutation_nth)

lemma RCPlus_body_out: "rc4_ok st \<Longrightarrow> fst (RCPlus_PRGA_body st) < 256"
  by (simp add: rc4_ok_def RCPlus_PRGA_body_def Let_def update_update_swap
      is_permutation_swap is_permutation_nth xor_less_256)

lemma tfull_sbox0: "tfull 8 sbox0"
  unfolding sbox0_def by (rule tfull_ident)

lemma tlist_sbox0: "tlist sbox0 = [0..<256]"
  unfolding sbox0_def by (rule tlist_ident)

lemma swap_tlist:
  "tfull 8 t \<Longrightarrow> a < 256 \<Longrightarrow> b < 256 \<Longrightarrow> swap (tlist t) a b = tlist (tswap t a b)"
  by (simp add: tlist_tswap)

lemma update_tlist:
  "tfull 8 t \<Longrightarrow> n < 256 \<Longrightarrow> (tlist t)[n := v] = tlist (tput t n v)"
  by (simp add: tlist_tput)

section \<open>The loop of a PRGA\<close>

lemma PRGA_loop_add:
  "PRGA_loop body (m + n) st =
     (case PRGA_loop body m st of (a, st1) \<Rightarrow>
        (case PRGA_loop body n st1 of (b, st2) \<Rightarrow> (a @ b, st2)))"
  by (induction m arbitrary: st) (simp_all add: case_prod_beta)

lemma PRGA_loop_length: "length (fst (PRGA_loop body n st)) = n"
  by (induction n arbitrary: st) (simp_all add: case_prod_beta)

lemma PRGA_loop_inv:
  assumes "\<And>s. I s \<Longrightarrow> I (snd (body s))" "I st"
  shows "I (snd (PRGA_loop body n st))"
  using assms(2)
proof (induction n arbitrary: st)
  case 0
  then show ?case by simp
next
  case (Suc n)
  from Suc.IH[of "snd (body st)"] assms(1)[OF Suc.prems] show ?case
    by (simp add: case_prod_beta)
qed

lemma PRGA_loop_out:
  assumes "\<And>s. I s \<Longrightarrow> I (snd (body s))" "\<And>s. I s \<Longrightarrow> fst (body s) < 256" "I st"
  shows "list_all (\<lambda>k. k < 256) (fst (PRGA_loop body n st))"
  using assms(3)
proof (induction n arbitrary: st)
  case 0
  then show ?case by simp
next
  case (Suc n)
  from Suc.IH[of "snd (body st)"] assms(1)[OF Suc.prems] assms(2)[OF Suc.prems] show ?case
    by (simp add: case_prod_beta)
qed

lemma PRGA_loop_ev:
  assumes sim: "\<And>x. T x \<Longrightarrow> I (\<alpha> x) \<Longrightarrow>
            body (\<alpha> x) = (fst (ebody x), \<alpha> (snd (ebody x))) \<and> T (snd (ebody x))"
    and pres: "\<And>s. I s \<Longrightarrow> I (snd (body s))"
    and x: "T x" "I (\<alpha> x)"
  shows "PRGA_loop body n (\<alpha> x) = (ev_run ebody n x, \<alpha> (ev_skip ebody n x))"
  using x
proof (induction n arbitrary: x)
  case 0
  then show ?case by simp
next
  case (Suc n)
  note s = sim[OF Suc.prems]
  have "I (\<alpha> (snd (ebody x)))"
    using pres[OF Suc.prems(2)] s by simp
  from Suc.IH[OF conjunct2[OF s] this] s show ?case
    by (simp add: case_prod_beta)
qed

section \<open>The evaluators compute what the methods compute\<close>

lemma ev_KSA_loop:
  "key \<noteq> [] \<Longrightarrow> tfull 8 t \<Longrightarrow> i + n \<le> 256 \<Longrightarrow>
     KSA_loop key [i..<i + n] j (tlist t) = Inr (tlist (ev_KSA key n i j t))"
proof (induction n arbitrary: i j t)
  case 0
  then show ?case by simp
next
  case (Suc n)
  let ?j = "(j + tget t i + key ! (i mod length key)) AND 0xFF"
  have i: "i < 256" using Suc.prems by simp
  have up: "[i..<i + Suc n] = i # [Suc i..<Suc i + n]"
    by (simp add: upt_conv_Cons)
  have "KSA_loop key [Suc i..<Suc i + n] ?j (tlist (tswap t i ?j))
        = Inr (tlist (ev_KSA key n (Suc i) ?j (tswap t i ?j)))"
    using Suc.prems by (intro Suc.IH) (simp_all add: tfull_tswap)
  then show ?case
    using Suc.prems(1,2) i unfolding up
    by (simp add: py_mod_def Let_def tlist_nth tlist_tswap)
qed

lemma ev_KSA_full: "tfull 8 t \<Longrightarrow> tfull 8 (ev_KSA key n i j t)"
  by (induction n arbitrary: i j t) (simp_all add: Let_def tfull_tswap)

lemma KSA_ev:
  assumes "key_ords key \<noteq> []"
  shows "KSA key = Inr (tlist (ev_KSA (key_ords key) 256 0 0 sbox0))"
proof -
  have "KSA_loop (key_ords key) [0..<0 + 256] 0 (tlist sbox0)
        = Inr (tlist (ev_KSA (key_ords key) 256 0 0 sbox0))"
    using assms by (intro ev_KSA_loop) (simp_all add: tfull_sbox0)
  then show ?thesis
    by (simp add: KSA_def tlist_sbox0)
qed

lemma ev_RC4_sim:
  "tinv3 x \<Longrightarrow> rc4_ok (abs_rc4 x) \<Longrightarrow>
     RC4_PRGA_body (abs_rc4 x) = (fst (ev_RC4 x), abs_rc4 (snd (ev_RC4 x))) \<and> tinv3 (snd (ev_RC4 x))"
  by (cases x)
     (simp add: tinv3_def abs_rc4_def RC4_PRGA_body_def Let_def ev_RC4_j_def ev_RC4_swap_def
        ev_RC4_out_def tlist_nth swap_tlist tfull_tswap)

lemma ev_RC4A_sim:
  "tinv6 x \<Longrightarrow> rc4a_ok (abs_rc4a x) \<Longrightarrow>
     RC4A_PRGA_body (abs_rc4a x) = (fst (ev_RC4A x), abs_rc4a (snd (ev_RC4A x)))
     \<and> tinv6 (snd (ev_RC4A x))"
proof -
  assume a: "tinv6 x" "rc4a_ok (abs_rc4a x)"
  obtain f i j j2 t t2 where x: "x = (f, i, j, j2, t, t2)" by (cases x)
  show ?thesis
  proof (cases f)
    case True
    with a x show ?thesis
      by (simp add: tinv6_def abs_rc4a_def RC4A_PRGA_body_def Let_def ev_RC4A_j_def
          ev_RC4A_swap_def ev_RC4A_out_def tlist_nth swap_tlist tfull_tswap)
  next
    case False
    with a x show ?thesis
      by (simp add: tinv6_def abs_rc4a_def rc4a_ok_def RC4A_PRGA_body_def Let_def
          ev_RC4A_swap2_def ev_RC4A_out2_def tlist_nth swap_tlist tfull_tswap)
  qed
qed

lemma ev_VMPC_sim:
  "tinv3 x \<Longrightarrow> rc4_ok (abs_rc4 x) \<Longrightarrow>
     VMPC_PRGA_body (abs_rc4 x) = (fst (ev_VMPC x), abs_rc4 (snd (ev_VMPC x)))
     \<and> tinv3 (snd (ev_VMPC x))"
proof -
  assume a: "tinv3 x" "rc4_ok (abs_rc4 x)"
  obtain i j t where x: "x = (i, j, t)" by (cases x)
  have full: "tfull 8 t" and perm: "is_permutation (tlist t)" and i: "i < 256"
    using a x by (simp_all add: tinv3_def abs_rc4_def rc4_ok_def)
  have v: "\<And>n. n < 256 \<Longrightarrow> tget t n < 256"
    using is_permutation_nth[OF perm] by (simp add: tlist_nth)
  show ?thesis
    using full i v x
    by (simp add: tinv3_def abs_rc4_def VMPC_PRGA_body_def Let_def ev_VMPC_j_def ev_VMPC_b_def
        ev_VMPC_out_def tlist_nth update_tlist tfull_tput)
qed

lemma ev_RCPlus_sim:
  "tinv3 x \<Longrightarrow> rc4_ok (abs_rc4 x) \<Longrightarrow>
     RCPlus_PRGA_body (abs_rc4 x) = (fst (ev_RCPlus x), abs_rc4 (snd (ev_RCPlus x)))
     \<and> tinv3 (snd (ev_RCPlus x))"
proof -
  assume a: "tinv3 x" "rc4_ok (abs_rc4 x)"
  obtain i j t where x: "x = (i, j, t)" by (cases x)
  have full: "tfull 8 t"
    using a x by (simp add: tinv3_def)
  define m where "m = (\<lambda>n::nat. n AND 0xFF)"
  have m: "\<And>n. m n < 256" by (simp add: m_def)
  have fold: "\<And>n::nat. n AND 0xFF = m n" by (simp add: m_def)
  have xa: "\<And>n. m n XOR 0xAA < 256" by (rule xor_less_256) (simp_all add: m)
  show ?thesis
    unfolding x abs_rc4_def RCPlus_PRGA_body_def ev_RCPlus.simps ev_RCPlus_a_def
      ev_RCPlus_j_def ev_RCPlus_b_def ev_RCPlus_s_def ev_RCPlus_c_def ev_RCPlus_k_def fold
    using full m xa
    by (simp add: tinv3_def Let_def tlist_nth update_tlist tfull_tput)
qed

section \<open>Rewrite rules that run the evaluators on numerals\<close>

lemma Suc_Suc_0: "Suc (Suc 0) = 2"
  by simp

lemma ident_numeral:
  "ident (numeral v) step off =
     Br (ident (numeral v - 1) (2 * step) off) (ident (numeral v - 1) (2 * step) (off + step))"
proof -
  obtain n :: nat where n: "numeral v = Suc n" by (metis numeral_eq_Suc)
  show ?thesis unfolding n by simp
qed

lemma ident_Suc_0: "ident (Suc 0) step off = Br (Tip off) (Tip (off + step))"
  by simp

lemma tget_numeral:
  "tget (Tip x) n = x"
  "tget (Br l r) 0 = tget l 0"
  "tget (Br l r) (Suc 0) = tget r 0"
  "tget (Br l r) (numeral (Num.Bit0 k)) = tget l (numeral k)"
  "tget (Br l r) (numeral (Num.Bit1 k)) = tget r (numeral k)"
  "tget (Br l r) (numeral Num.One) = tget r 0"
  by (simp_all add: numeral_Bit0_div_2 numeral_Bit1_div_2)

lemma tput_numeral:
  "tput (Tip x) n v = Tip v"
  "tput (Br l r) 0 v = Br (tput l 0 v) r"
  "tput (Br l r) (Suc 0) v = Br l (tput r 0 v)"
  "tput (Br l r) (numeral (Num.Bit0 k)) v = Br (tput l (numeral k) v) r"
  "tput (Br l r) (numeral (Num.Bit1 k)) v = Br l (tput r (numeral k) v)"
  "tput (Br l r) (numeral Num.One) v = Br l (tput r 0 v)"
  by (simp_all add: numeral_Bit0_div_2 numeral_Bit1_div_2)

lemma ev_KSA_numeral:
  "ev_KSA key (numeral v) i j t =
     ev_KSA_swap key (numeral v - 1) i ((j + tget t i + key ! (i mod length key)) AND 0xFF) t"
proof -
  obtain n :: nat where n: "numeral v = Suc n" by (metis numeral_eq_Suc)
  show ?thesis unfolding n by (simp add: ev_KSA_swap_def Let_def)
qed

lemma ev_KSA_Suc_0:
  "ev_KSA key (Suc 0) i j t =
     ev_KSA_swap key 0 i ((j + tget t i + key ! (i mod length key)) AND 0xFF) t"
  by (simp add: ev_KSA_swap_def Let_def)

lemma ev_KSA_0: "ev_KSA key 0 i j t = t"
  by simp

lemma ev_run_numeral: "ev_run body (numeral v) x = ev_emit body (numeral v - 1) (body x)"
proof -
  obtain n :: nat where n: "numeral v = Suc n" by (metis numeral_eq_Suc)
  show ?thesis unfolding n by (simp add: ev_emit_def)
qed

lemma ev_run_Suc_0: "ev_run body (Suc 0) x = ev_emit body 0 (body x)"
  by (simp add: ev_emit_def)

lemma ev_run_0: "ev_run body 0 x = []"
  by simp

lemma ev_emit_Pair: "ev_emit body n (k, x) = k # ev_run body n x"
  by (simp add: ev_emit_def)

lemma ev_skip_numeral: "ev_skip body (numeral v) x = ev_drop body (numeral v - 1) (body x)"
proof -
  obtain n :: nat where n: "numeral v = Suc n" by (metis numeral_eq_Suc)
  show ?thesis unfolding n by (simp add: ev_drop_def)
qed

lemma ev_skip_Suc_0: "ev_skip body (Suc 0) x = ev_drop body 0 (body x)"
  by (simp add: ev_drop_def)

lemma ev_skip_0: "ev_skip body 0 x = x"
  by simp

lemma ev_drop_Pair: "ev_drop body n (k, x) = ev_skip body n x"
  by (simp add: ev_drop_def)

lemmas ev_rules =
  Suc_Suc_0 ident_numeral ident_Suc_0 sbox0_def tget_numeral tput_numeral tswap_def
  ev_KSA_numeral ev_KSA_Suc_0 ev_KSA_0 ev_KSA_swap_def
  ev_run_numeral ev_run_Suc_0 ev_run_0 ev_emit_Pair
  ev_skip_numeral ev_skip_Suc_0 ev_skip_0 ev_drop_Pair
  ev_RC4_j_def ev_RC4_swap_def ev_RC4_out_def
  ev_RC4A_j_def ev_RC4A_swap_def ev_RC4A_out_def ev_RC4A_swap2_def ev_RC4A_out2_def
  ev_VMPC_j_def ev_VMPC_b_def ev_VMPC_out_def
  ev_RCPlus_a_def ev_RCPlus_j_def ev_RCPlus_b_def ev_RCPlus_s_def
  ev_RCPlus_c_def ev_RCPlus_k_def

lemmas ev_dels = ident.simps tget.simps tput.simps ev_KSA.simps ev_run.simps ev_skip.simps

section \<open>Instances and their invariant\<close>

lemma RC4_PRGA_ok: "rc4_ok st \<Longrightarrow> rc4_ok (snd (RC4_PRGA n st))"
  unfolding RC4_PRGA_def by (rule PRGA_loop_inv[where I = rc4_ok]) (simp_all add: RC4_body_ok)

lemma RC4A_PRGA_ok: "rc4a_ok st \<Longrightarrow> rc4a_ok (snd (RC4A_PRGA n st))"
  unfolding RC4A_PRGA_def by (rule PRGA_loop_inv[where I = rc4a_ok]) (simp_all add: RC4A_body_ok)

lemma VMPC_PRGA_ok: "rc4_ok st \<Longrightarrow> rc4_ok (snd (VMPC_PRGA n st))"
  unfolding VMPC_PRGA_def by (rule PRGA_loop_inv[where I = rc4_ok]) (simp_all add: VMPC_body_ok)

lemma RCPlus_PRGA_ok: "rc4_ok st \<Longrightarrow> rc4_ok (snd (RCPlus_PRGA n st))"
  unfolding RCPlus_PRGA_def by (rule PRGA_loop_inv[where I = rc4_ok]) (simp_all add: RCPlus_body_ok)

lemma PRGA_ok: "cipher_ok c \<Longrightarrow> cipher_ok (snd (PRGA n c))"
  by (cases c)
     (simp_all add: case_prod_beta RC4_PRGA_ok RC4A_PRGA_ok VMPC_PRGA_ok RCPlus_PRGA_ok)

lemma PRGA_length: "length (fst (PRGA n c)) = n"
  by (cases c)
     (simp_all add: case_prod_beta RC4_PRGA_def RC4A_PRGA_def VMPC_PRGA_def RCPlus_PRGA_def
        PRGA_loop_length)

lemma PRGA_bytes: "cipher_ok c \<Longrightarrow> list_all (\<lambda>k. k < 256) (fst (PRGA n c))"
proof (cases c)
  case (RC4_obj st)
  assume "cipher_ok c"
  with RC4_obj have "list_all (\<lambda>k. k < 256) (fst (PRGA_loop RC4_PRGA_body n st))"
    by (intro PRGA_loop_out[where I = rc4_ok]) (simp_all add: RC4_body_ok RC4_body_out)
  with RC4_obj show ?thesis by (simp add: case_prod_beta RC4_PRGA_def)
next
  case (RC4A_obj st)
  assume "cipher_ok c"
  with RC4A_obj have "list_all (\<lambda>k. k < 256) (fst (PRGA_loop RC4A_PRGA_body n st))"
    by (intro PRGA_loop_out[where I = rc4a_ok]) (simp_all add: RC4A_body_ok RC4A_body_out)
  with RC4A_obj show ?thesis by (simp add: case_prod_beta RC4A_PRGA_def)
next
  case (VMPC_obj st)
  assume "cipher_ok c"
  with VMPC_obj have "list_all (\<lambda>k. k < 256) (fst (PRGA_loop VMPC_PRGA_body n st))"
    by (intro PRGA_loop_out[where I = rc4_ok]) (simp_all add: VMPC_body_ok VMPC_body_out)
  with VMPC_obj show ?thesis by (simp add: case_prod_beta VMPC_PRGA_def)
next
  case (RCPlus_obj st)
  assume "cipher_ok c"
  with RCPlus_obj have "list_all (\<lambda>k. k < 256) (fst (PRGA_loop RCPlus_PRGA_body n st))"
    by (intro PRGA_loop_out[where I = rc4_ok]) (simp_all add: RCPlus_body_ok RCPlus_body_out)
  with RCPlus_obj show ?thesis by (simp add: case_prod_beta RCPlus_PRGA_def)
next
  case (RCDrop_obj st)
  assume "cipher_ok c"
  with RCDrop_obj have "list_all (\<lambda>k. k < 256) (fst (PRGA_loop RC4_PRGA_body n st))"
    by (intro PRGA_loop_out[where I = rc4_ok]) (simp_all add: RC4_body_ok RC4_body_out)
  with RCDrop_obj show ?thesis by (simp add: case_prod_beta RC4_PRGA_def)
qed

lemma PRGA_add:
  "PRGA (m + n) c = (fst (PRGA m c) @ fst (PRGA n (snd (PRGA m c))), snd (PRGA n (snd (PRGA m c))))"
  by (cases c)
     (simp_all add: case_prod_beta RC4_PRGA_def RC4A_PRGA_def VMPC_PRGA_def RCPlus_PRGA_def
        PRGA_loop_add)

lemma warm_up_ok: "cipher_ok c \<Longrightarrow> cipher_ok (warm_up skip c)"
  by (simp add: warm_up_def PRGA_ok)

lemma warm_up_PRGA: "warm_up skip c = snd (PRGA skip c)"
  by (cases c)
     (simp_all add: warm_up_def RC4_PRGA_def RC4A_PRGA_def VMPC_PRGA_def RCPlus_PRGA_def)

lemma RC4_fields_fresh:
  assumes "key_ords key \<noteq> []"
  shows "\<exists>s. KSA key = Inr s \<and> is_permutation s
           \<and> RC4_fields key = Inr \<lparr>self_i = 0, self_j = 0, self_s = s\<rparr>"
  using KSA_permutation[OF assms] by (auto simp: RC4_fields_def)

lemma RC4_fields_empty: "key_ords key = [] \<Longrightarrow> RC4_fields key = Inl ZeroDivisionError"
  by (simp add: RC4_fields_def KSA_def KSA_loop_empty_key)

section \<open>\<^verbatim>\<open>encode_decode\<close>\<close>

lemma map_nth_xor:
  "length ks = length P \<Longrightarrow>
     map (\<lambda>i. P ! i XOR ks ! i) [0..<length P] = map2 (XOR) P (ks :: nat list)"
  by (rule nth_equalityI) simp_all

lemma map2_xor_bytes:
  "list_all (\<lambda>b. b < 256) P \<Longrightarrow> list_all (\<lambda>k. k < 256) ks \<Longrightarrow>
     list_all (\<lambda>b. b < 256) (map2 (XOR) P (ks :: nat list))"
  by (induction P ks rule: list_induct2') (simp_all add: xor_less_256)

lemma map2_xor_twice:
  "length ks = length P \<Longrightarrow> map2 (XOR) (map2 (XOR) P ks) ks = (P :: nat list)"
  by (induction P ks rule: list_induct2') (simp_all add: xor_xor_cancel)

lemma encode_decode_eq:
  assumes "cipher_ok self" "list_all (\<lambda>b. b < 256) P"
  shows "encode_decode self P =
           Inr (map2 (XOR) P (fst (PRGA (length P) self)), snd (PRGA (length P) self))"
proof -
  have "list_all (\<lambda>b. b < 256) (map2 (XOR) P (fst (PRGA (length P) self)))"
    using assms by (intro map2_xor_bytes PRGA_bytes)
  then show ?thesis
    by (simp add: encode_decode_def case_prod_beta map_nth_xor PRGA_length py_bytes_def)
qed

section \<open>Running the doctests\<close>

lemma key_ords_key: "key_ords (Str (py_str ''key'')) = [107, 101, 121]"
  by (simp add: py_str_def)

lemma utf8_test: "utf8_encode (py_str ''test'') = Inr [116, 101, 115, 116]"
  by (simp add: py_str_def utf8_encode_char_def)

lemma ev_KSA_key: "ev_KSA [107, 101, 121] 256 0 0 sbox0 = key_sbox"
  by (simp del: ev_dels add: ev_rules key_sbox_def)

lemma KSA_key: "KSA (Str (py_str ''key'')) = Inr (tlist key_sbox)"
  using KSA_ev[of "Str (py_str ''key'')"] by (simp only: key_ords_key ev_KSA_key) simp

lemma key_sbox_full: "tfull 8 key_sbox"
  using ev_KSA_full[OF tfull_sbox0, of "[107, 101, 121]" 256 0 0] by (simp only: ev_KSA_key)

lemma key_sbox_permutation: "is_permutation (tlist key_sbox)"
proof -
  have "key_ords (Str (py_str ''key'')) \<noteq> []" by (simp add: py_str_def)
  from KSA_permutation[OF this] show ?thesis by (simp add: KSA_key)
qed

lemma RC4_fields_key: "RC4_fields (Str (py_str ''key'')) = Inr (abs_rc4 (0, 0, key_sbox))"
  by (simp add: RC4_fields_def KSA_key abs_rc4_def)

lemma key_fresh3: "tinv3 (0, 0, key_sbox)" "rc4_ok (abs_rc4 (0, 0, key_sbox))"
  by (simp_all add: tinv3_def rc4_ok_def abs_rc4_def key_sbox_full key_sbox_permutation)

lemma RC4_PRGA_ev:
  assumes "tinv3 x" "rc4_ok (abs_rc4 x)"
  shows "RC4_PRGA n (abs_rc4 x) = (ev_run ev_RC4 n x, abs_rc4 (ev_skip ev_RC4 n x))"
  unfolding RC4_PRGA_def
  using assms by (intro PRGA_loop_ev[where T = tinv3 and I = rc4_ok]) (simp_all add: ev_RC4_sim RC4_body_ok)

lemma VMPC_PRGA_ev:
  assumes "tinv3 x" "rc4_ok (abs_rc4 x)"
  shows "VMPC_PRGA n (abs_rc4 x) = (ev_run ev_VMPC n x, abs_rc4 (ev_skip ev_VMPC n x))"
  unfolding VMPC_PRGA_def
  using assms by (intro PRGA_loop_ev[where T = tinv3 and I = rc4_ok]) (simp_all add: ev_VMPC_sim VMPC_body_ok)

lemma RCPlus_PRGA_ev:
  assumes "tinv3 x" "rc4_ok (abs_rc4 x)"
  shows "RCPlus_PRGA n (abs_rc4 x) = (ev_run ev_RCPlus n x, abs_rc4 (ev_skip ev_RCPlus n x))"
  unfolding RCPlus_PRGA_def
  using assms by (intro PRGA_loop_ev[where T = tinv3 and I = rc4_ok]) (simp_all add: ev_RCPlus_sim RCPlus_body_ok)

lemma RC4A_PRGA_ev:
  assumes "tinv6 x" "rc4a_ok (abs_rc4a x)"
  shows "RC4A_PRGA n (abs_rc4a x) = (ev_run ev_RC4A n x, abs_rc4a (ev_skip ev_RC4A n x))"
  unfolding RC4A_PRGA_def
  using assms by (intro PRGA_loop_ev[where T = tinv6 and I = rc4a_ok]) (simp_all add: ev_RC4A_sim RC4A_body_ok)

lemma ks_RC4_key: "ev_run ev_RC4 4 (0, 0, key_sbox) = [11, 108, 52, 237]"
  by (simp del: ev_dels add: ev_rules key_sbox_def)

lemma ks_VMPC_key: "ev_run ev_VMPC 4 (0, 0, key_sbox) = [103, 58, 234, 230]"
  by (simp del: ev_dels add: ev_rules key_sbox_def)

lemma ks_RCPlus_key: "ev_run ev_RCPlus 4 (0, 0, key_sbox) = [83, 170, 147, 243]"
  by (simp del: ev_dels add: ev_rules key_sbox_def)

lemma ks_RC4A_key: "ev_run ev_RC4A 4 (True, 0, 0, 0, key_sbox, key_sbox) = [11, 11, 108, 108]"
  by (simp del: ev_dels add: ev_rules key_sbox_def)

lemma xor_test:
  "map2 (XOR) [116, 101, 115, 116] [11, 108, 52, 237] = [127, 9, 71, 153 :: nat]"
  "map2 (XOR) [116, 101, 115, 116] [103, 58, 234, 230] = [19, 95, 153, 146 :: nat]"
  "map2 (XOR) [116, 101, 115, 116] [83, 170, 147, 243] = [39, 207, 224, 135 :: nat]"
  "map2 (XOR) [116, 101, 115, 116] [11, 11, 108, 108] = [127, 110, 31, 24 :: nat]"
  by simp_all

lemma bytes_test: "list_all (\<lambda>b. b < 256) [116, 101, 115, 116 :: nat]"
  by simp

lemma encode_str_test:
  assumes "cipher_ok self" "fst (PRGA 4 self) = ks"
  shows "encode_str self (py_str ''test'')
           = Inr (map2 (XOR) [116, 101, 115, 116] ks, snd (PRGA 4 self))"
proof -
  have len: "length [116, 101, 115, 116 :: nat] = 4" by simp
  from encode_decode_eq[OF assms(1) bytes_test]
  have "encode_decode self [116, 101, 115, 116]
          = Inr (map2 (XOR) [116, 101, 115, 116] (fst (PRGA 4 self)), snd (PRGA 4 self))"
    by (simp only: len)
  then show ?thesis
    by (simp only: encode_str_def utf8_test assms(2) sum.case)
qed

lemma RC4_key_test:
  "\<exists>self self'. RC4_init (Str (py_str ''key'')) = Inr self
     \<and> encode_str self (py_str ''test'') = Inr ([127, 9, 71, 153], self')"
proof -
  let ?self = "RC4_obj (abs_rc4 (0, 0, key_sbox))"
  have init: "RC4_init (Str (py_str ''key'')) = Inr ?self"
    by (simp add: RC4_init_def RC4_fields_key)
  have ok: "cipher_ok ?self"
    by (simp add: key_fresh3)
  have ks: "fst (PRGA 4 ?self) = [11, 108, 52, 237]"
    by (simp add: RC4_PRGA_ev[OF key_fresh3] ks_RC4_key)
  from encode_str_test[OF ok ks] init show ?thesis
    by (simp only: xor_test) blast
qed

section \<open>Code and specification, step by step\<close>

lemma RC4_body_spec:
  "(fst (RC4_PRGA_body st), spec_of_rc4 (snd (RC4_PRGA_body st))) = spec_RC4_step (spec_of_rc4 st)"
  unfolding RC4_PRGA_body_def and_255_mod
  by (simp add: spec_RC4_step_def spec_of_rc4_def Let_def spec_swap_eq)

lemma RC4A_body_spec:
  "(fst (RC4A_PRGA_body st), spec_of_rc4a (snd (RC4A_PRGA_body st)))
     = spec_RC4A_step (spec_of_rc4a st)"
  unfolding RC4A_PRGA_body_def and_255_mod
  by (simp add: spec_RC4A_step_def spec_of_rc4a_def Let_def spec_swap_eq)

lemma VMPC_body_spec:
  "(fst (VMPC_PRGA_body st), spec_of_rc4 (snd (VMPC_PRGA_body st)))
     = spec_VMPC_step (spec_of_rc4 st)"
  unfolding VMPC_PRGA_body_def and_255_mod
  by (simp add: spec_VMPC_step_def spec_of_rc4_def Let_def)

lemma RCPlus_body_spec:
  "(fst (RCPlus_PRGA_body st), spec_of_rc4 (snd (RCPlus_PRGA_body st)))
     = spec_RCPlus_step (spec_of_rc4 st)"
proof -
  define i where "i = (self_i st + 1) mod 256"
  define a where "a = self_s st ! i"
  define j where "j = (self_j st + a) mod 256"
  define b where "b = self_s st ! j"
  define S where "S = ((self_s st)[i := b])[j := a]"
  define v where "v = (push_bit 5 i XOR drop_bit 3 j) mod 256"
  define w where "w = (push_bit 5 j XOR drop_bit 3 i) mod 256"
  define c where "c = (S ! v + S ! j + S ! w) mod 256"
  define k where
    "k = ((S ! ((a + b) mod 256) + S ! (c XOR 0xAA)) mod 256) XOR S ! ((j + b) mod 256)"
  have code: "RCPlus_PRGA_body st = (k, st\<lparr>self_i := i, self_j := j, self_s := S\<rparr>)"
    unfolding RCPlus_PRGA_body_def and_255_mod Let_def k_def c_def w_def v_def S_def b_def
      j_def a_def i_def
    by (rule refl)
  have spec: "spec_RCPlus_step (self_i st, self_j st, self_s st) = (k, i, j, S)"
    unfolding spec_RCPlus_step_def prod.case Let_def k_def c_def w_def v_def S_def b_def
      j_def a_def i_def
    by (rule refl)
  show ?thesis
    unfolding code spec_of_rc4_def spec by simp
qed

lemma RCPlus_indices_bounded: "list_all (\<lambda>n. n < 256) (RCPlus_indices st)"
proof -
  define m where "m = (\<lambda>n::nat. n AND 0xFF)"
  have m: "\<And>n. m n < 256" by (simp add: m_def)
  have fold: "\<And>n::nat. n AND 0xFF = m n" by (simp add: m_def)
  have xa: "\<And>n. m n XOR 0xAA < 256" by (rule xor_less_256) (simp_all add: m)
  show ?thesis
    unfolding RCPlus_indices_def fold
    using m xa by (simp add: Let_def)
qed

lemma RC4_init_spec:
  "key_ords key \<noteq> [] \<Longrightarrow>
     RC4_init key = Inr (RC4_obj \<lparr>self_i = 0, self_j = 0, self_s = spec_KSA (key_ords key)\<rparr>)"
  by (simp add: RC4_init_def RC4_fields_def KSA_spec)

text \<open>
  C1. Baseline RC4 is the reference algorithm: for a key that is not empty (lengths 1 to 256
  among them) \<^verbatim>\<open>KSA\<close> returns the S-box of the specification's key scheduling and a
  fresh instance has \<open>i = j = 0\<close>; one pass of the body of \<^verbatim>\<open>PRGA\<close> is one step of the
  specification's generator; and \<^verbatim>\<open>RC4('key').encode_str('test')\<close> is
  \<^verbatim>\<open>[127, 9, 71, 153]\<close>.
\<close>

theorem C1_RC4_reference:
  "(key_ords key \<noteq> [] \<longrightarrow>
      KSA key = Inr (spec_KSA (key_ords key))
      \<and> RC4_init key
          = Inr (RC4_obj \<lparr>self_i = 0, self_j = 0, self_s = spec_KSA (key_ords key)\<rparr>))
   \<and> (fst (RC4_PRGA_body st), spec_of_rc4 (snd (RC4_PRGA_body st)))
        = spec_RC4_step (spec_of_rc4 st)
   \<and> RC4_PRGA n st = PRGA_loop RC4_PRGA_body n st
   \<and> (\<exists>self self'. RC4_init (Str (py_str ''key'')) = Inr self
         \<and> encode_str self (py_str ''test'') = Inr ([127, 9, 71, 153], self'))"
  using KSA_spec[of key] RC4_init_spec[of key] RC4_body_spec[of st] RC4_key_test
  by (simp only: RC4_PRGA_def) blast

theorem C1_RC4_reference_witness:
  "key_ords (Str (py_str ''key'')) \<noteq> []
   \<and> KSA (Str (py_str ''key'')) = Inr (spec_KSA (key_ords (Str (py_str ''key''))))"
proof -
  have h: "key_ords (Str (py_str ''key'')) \<noteq> []"
    by (simp add: py_str_def)
  from C1_RC4_reference[of "Str (py_str ''key'')"] h show ?thesis
    by blast
qed

lemma ev_skip_inv:
  assumes sim: "\<And>x. T x \<Longrightarrow> I (\<alpha> x) \<Longrightarrow>
            body (\<alpha> x) = (fst (ebody x), \<alpha> (snd (ebody x))) \<and> T (snd (ebody x))"
    and pres: "\<And>s. I s \<Longrightarrow> I (snd (body s))"
    and x: "T x" "I (\<alpha> x)"
  shows "T (ev_skip ebody n x) \<and> I (\<alpha> (ev_skip ebody n x))"
  using x
proof (induction n arbitrary: x)
  case 0
  then show ?case by simp
next
  case (Suc n)
  note s = sim[OF Suc.prems]
  have "I (\<alpha> (snd (ebody x)))"
    using pres[OF Suc.prems(2)] s by simp
  from Suc.IH[OF conjunct2[OF s] this] show ?case
    by simp
qed

lemma RC4_skip_inv:
  "tinv3 x \<Longrightarrow> rc4_ok (abs_rc4 x) \<Longrightarrow>
     tinv3 (ev_skip ev_RC4 n x) \<and> rc4_ok (abs_rc4 (ev_skip ev_RC4 n x))"
  by (rule ev_skip_inv[where body = RC4_PRGA_body]) (simp_all add: ev_RC4_sim RC4_body_ok)

lemma RC4A_skip_inv:
  "tinv6 x \<Longrightarrow> rc4a_ok (abs_rc4a x) \<Longrightarrow>
     tinv6 (ev_skip ev_RC4A n x) \<and> rc4a_ok (abs_rc4a (ev_skip ev_RC4A n x))"
  by (rule ev_skip_inv[where body = RC4A_PRGA_body]) (simp_all add: ev_RC4A_sim RC4A_body_ok)

lemma key_fresh6:
  "tinv6 (True, 0, 0, 0, key_sbox, key_sbox)"
  "rc4a_ok (abs_rc4a (True, 0, 0, 0, key_sbox, key_sbox))"
  by (simp_all add: tinv6_def rc4a_ok_def abs_rc4a_def key_sbox_full key_sbox_permutation)

lemma RC4A_init_fresh:
  "key_ords key \<noteq> [] \<Longrightarrow>
     \<exists>S. KSA key = Inr S \<and> is_permutation S
       \<and> RC4A_init key skip = Inr (RC4A_obj (snd (RC4A_PRGA skip
            \<lparr>self_i = 0, self_j = 0, self_s = S,
             self_S2 = S, self_j2 = 0, self_first_op = True\<rparr>)))"
  using KSA_permutation[of key]
  by (auto simp: RC4A_init_def RC4_fields_def warm_up_PRGA case_prod_beta)

lemma RC4A_init_key:
  "RC4A_init (Str (py_str ''key'')) skip
     = Inr (RC4A_obj (abs_rc4a (ev_skip ev_RC4A skip (True, 0, 0, 0, key_sbox, key_sbox))))"
proof -
  have "RC4A_init (Str (py_str ''key'')) skip
          = Inr (RC4A_obj (snd (RC4A_PRGA skip (abs_rc4a (True, 0, 0, 0, key_sbox, key_sbox)))))"
    by (simp add: RC4A_init_def RC4_fields_def KSA_key warm_up_PRGA case_prod_beta abs_rc4a_def)
  then show ?thesis
    by (simp add: RC4A_PRGA_ev[OF key_fresh6])
qed

lemma ks_RC4A_key_1234:
  "ev_run ev_RC4A 4 (ev_skip ev_RC4A 1234 (True, 0, 0, 0, key_sbox, key_sbox))
     = [142, 142, 179, 179]"
  by (simp del: ev_dels add: ev_rules key_sbox_def)

lemma xor_test_1234:
  "map2 (XOR) [116, 101, 115, 116] [142, 142, 179, 179] = [250, 235, 192, 199 :: nat]"
  by simp

lemma RC4A_key_test:
  "\<exists>self self'. RC4A_init (Str (py_str ''key'')) 0 = Inr self
     \<and> encode_str self (py_str ''test'') = Inr ([127, 110, 31, 24], self')"
proof -
  let ?x = "(True, 0, 0, 0, key_sbox, key_sbox)"
  let ?self = "RC4A_obj (abs_rc4a ?x)"
  have init: "RC4A_init (Str (py_str ''key'')) 0 = Inr ?self"
    by (simp add: RC4A_init_key)
  have ok: "cipher_ok ?self"
    by (simp add: key_fresh6)
  have ks: "fst (PRGA 4 ?self) = [11, 11, 108, 108]"
    by (simp add: RC4A_PRGA_ev[OF key_fresh6] ks_RC4A_key)
  from encode_str_test[OF ok ks] init show ?thesis
    by (simp only: xor_test) blast
qed

lemma RC4A_key_1234_test:
  "\<exists>self self'. RC4A_init (Str (py_str ''key'')) 1234 = Inr self
     \<and> encode_str self (py_str ''test'') = Inr ([250, 235, 192, 199], self')"
proof -
  let ?x = "ev_skip ev_RC4A 1234 (True, 0, 0, 0, key_sbox, key_sbox)"
  let ?self = "RC4A_obj (abs_rc4a ?x)"
  note inv = RC4A_skip_inv[OF key_fresh6, of 1234]
  have init: "RC4A_init (Str (py_str ''key'')) 1234 = Inr ?self"
    by (rule RC4A_init_key)
  have ok: "cipher_ok ?self"
    using inv by simp
  have ks: "fst (PRGA 4 ?self) = [142, 142, 179, 179]"
    using RC4A_PRGA_ev[OF conjunct1[OF inv] conjunct2[OF inv], of 4]
    by (simp only: PRGA.simps ks_RC4A_key_1234 prod.case fst_conv)
  from encode_str_test[OF ok ks] init show ?thesis
    by (simp only: xor_test_1234) blast
qed

text \<open>
  C2. RC4A: a fresh instance holds two S-boxes, both from key scheduling on the key, with
  \<open>i = j = j2 = 0\<close> and the flag at the first phase, and a \<open>skip\<close> runs \<open>skip\<close> steps of
  the instance's own PRGA; one pass of the body of \<^verbatim>\<open>RC4A.PRGA\<close> is one step of the
  specification's alternating generator (the first phase advances \<open>i\<close>, updates \<open>j\<close>, swaps
  in \<open>S\<close> and reads \<open>S2\<close>; the second keeps \<open>i\<close>, updates \<open>j2\<close>, swaps in \<open>S2\<close> and reads
  \<open>S\<close>); \<^verbatim>\<open>RC4A('key').encode_str('test')\<close> is \<^verbatim>\<open>[127, 110, 31, 24]\<close> and
  \<^verbatim>\<open>RC4A('key', 1234).encode_str('test')\<close> is \<^verbatim>\<open>[250, 235, 192, 199]\<close>.
\<close>

theorem C2_RC4A_reference:
  "(fst (RC4A_PRGA_body st), spec_of_rc4a (snd (RC4A_PRGA_body st)))
      = spec_RC4A_step (spec_of_rc4a st)
   \<and> RC4A_PRGA n st = PRGA_loop RC4A_PRGA_body n st
   \<and> (key_ords key \<noteq> [] \<longrightarrow>
        (\<exists>S. KSA key = Inr S
           \<and> RC4A_init key skip = Inr (RC4A_obj (snd (RC4A_PRGA skip
                \<lparr>self_i = 0, self_j = 0, self_s = S,
                 self_S2 = S, self_j2 = 0, self_first_op = True\<rparr>)))))
   \<and> (\<exists>self self'. RC4A_init (Str (py_str ''key'')) 0 = Inr self
         \<and> encode_str self (py_str ''test'') = Inr ([127, 110, 31, 24], self'))
   \<and> (\<exists>self self'. RC4A_init (Str (py_str ''key'')) 1234 = Inr self
         \<and> encode_str self (py_str ''test'') = Inr ([250, 235, 192, 199], self'))"
  using RC4A_body_spec[of st] RC4A_init_fresh[of key skip] RC4A_key_test RC4A_key_1234_test
  by (simp only: RC4A_PRGA_def) blast

theorem C2_RC4A_reference_witness:
  "key_ords (Str (py_str ''key'')) \<noteq> []
   \<and> (\<exists>S. KSA (Str (py_str ''key'')) = Inr S
         \<and> RC4A_init (Str (py_str ''key'')) 1234 = Inr (RC4A_obj (snd (RC4A_PRGA 1234
              \<lparr>self_i = 0, self_j = 0, self_s = S,
               self_S2 = S, self_j2 = 0, self_first_op = True\<rparr>))))"
proof -
  have h: "key_ords (Str (py_str ''key'')) \<noteq> []"
    by (simp add: py_str_def)
  from C2_RC4A_reference[of _ _ "Str (py_str ''key'')" 1234] h show ?thesis
    by blast
qed

section \<open>VMPC and RC4+\<close>

lemma VMPC_key_test:
  "\<exists>self self'. VMPC_init (Str (py_str ''key'')) 0 = Inr self
     \<and> encode_str self (py_str ''test'') = Inr ([19, 95, 153, 146], self')"
proof -
  let ?self = "VMPC_obj (abs_rc4 (0, 0, key_sbox))"
  have init: "VMPC_init (Str (py_str ''key'')) 0 = Inr ?self"
    by (simp add: VMPC_init_def RC4_fields_key warm_up_def)
  have ok: "cipher_ok ?self"
    by (simp add: key_fresh3)
  have ks: "fst (PRGA 4 ?self) = [103, 58, 234, 230]"
    by (simp add: VMPC_PRGA_ev[OF key_fresh3] ks_VMPC_key)
  from encode_str_test[OF ok ks] init show ?thesis
    by (simp only: xor_test) blast
qed

lemma RCPlus_key_test:
  "\<exists>self self'. RCPlus_init (Str (py_str ''key'')) 0 = Inr self
     \<and> encode_str self (py_str ''test'') = Inr ([39, 207, 224, 135], self')"
proof -
  let ?self = "RCPlus_obj (abs_rc4 (0, 0, key_sbox))"
  have init: "RCPlus_init (Str (py_str ''key'')) 0 = Inr ?self"
    by (simp add: RCPlus_init_def RC4_fields_key warm_up_def)
  have ok: "cipher_ok ?self"
    by (simp add: key_fresh3)
  have ks: "fst (PRGA 4 ?self) = [83, 170, 147, 243]"
    by (simp add: RCPlus_PRGA_ev[OF key_fresh3] ks_RCPlus_key)
  from encode_str_test[OF ok ks] init show ?thesis
    by (simp only: xor_test) blast
qed

lemma VMPC_init_0:
  "VMPC_init key 0 = (case KSA key of Inl e \<Rightarrow> Inl e
     | Inr S \<Rightarrow> Inr (VMPC_obj \<lparr>self_i = 0, self_j = 0, self_s = S\<rparr>))"
  by (simp add: VMPC_init_def RC4_fields_def warm_up_def split: sum.splits)

lemma RCPlus_init_0:
  "RCPlus_init key 0 = (case KSA key of Inl e \<Rightarrow> Inl e
     | Inr S \<Rightarrow> Inr (RCPlus_obj \<lparr>self_i = 0, self_j = 0, self_s = S\<rparr>))"
  by (simp add: RCPlus_init_def RC4_fields_def warm_up_def split: sum.splits)

text \<open>
  C3. VMPC: a fresh instance starts from \<open>i = 0\<close>, \<open>j = 0\<close> and the S-box of key
  scheduling; one pass of the body of \<^verbatim>\<open>VMPC.PRGA\<close> is the specification's step, in its
  order (\<open>a = S[i]\<close>, \<open>j = S[(j+a) mod 256]\<close>, \<open>b = S[j]\<close>, output \<open>S[(S[b]+1) mod 256]\<close>, then
  \<open>S[i] = b\<close>, \<open>S[j] = a\<close>, then \<open>i = (i+1) mod 256\<close>); and
  \<^verbatim>\<open>VMPC('key').encode_str('test')\<close> is \<^verbatim>\<open>[19, 95, 153, 146]\<close>.
\<close>

theorem C3_VMPC_reference:
  "(fst (VMPC_PRGA_body st), spec_of_rc4 (snd (VMPC_PRGA_body st)))
      = spec_VMPC_step (spec_of_rc4 st)
   \<and> VMPC_PRGA n st = PRGA_loop VMPC_PRGA_body n st
   \<and> VMPC_init key 0 = (case KSA key of Inl e \<Rightarrow> Inl e
        | Inr S \<Rightarrow> Inr (VMPC_obj \<lparr>self_i = 0, self_j = 0, self_s = S\<rparr>))
   \<and> (\<exists>self self'. VMPC_init (Str (py_str ''key'')) 0 = Inr self
         \<and> encode_str self (py_str ''test'') = Inr ([19, 95, 153, 146], self'))"
  using VMPC_body_spec[of st] VMPC_init_0[of key] VMPC_key_test
  by (simp only: VMPC_PRGA_def)

text \<open>
  C4. RC4+: one pass of the body of \<^verbatim>\<open>RCPlus.PRGA\<close> is the specification's step
  (\<open>i\<close>, \<open>a\<close>, \<open>j\<close>, \<open>b\<close>, the two stores, \<open>v\<close>, \<open>w\<close>, \<open>c\<close> and the output \<open>k\<close> as the
  specification writes them), every index at which the step reads or writes the S-box is
  below 256, and \<^verbatim>\<open>RCPlus('key').encode_str('test')\<close> is \<^verbatim>\<open>[39, 207, 224, 135]\<close>.
\<close>

theorem C4_RCPlus_reference:
  "(fst (RCPlus_PRGA_body st), spec_of_rc4 (snd (RCPlus_PRGA_body st)))
      = spec_RCPlus_step (spec_of_rc4 st)
   \<and> RCPlus_PRGA n st = PRGA_loop RCPlus_PRGA_body n st
   \<and> list_all (\<lambda>n. n < 256) (RCPlus_indices st)
   \<and> (\<exists>self self'. RCPlus_init (Str (py_str ''key'')) 0 = Inr self
         \<and> encode_str self (py_str ''test'') = Inr ([39, 207, 224, 135], self'))"
  using RCPlus_body_spec[of st] RCPlus_indices_bounded[of st] RCPlus_key_test
  by (simp only: RCPlus_PRGA_def)

section \<open>The permutation invariant\<close>

lemma RC4_body_permutation:
  "is_permutation (self_s st) \<Longrightarrow> is_permutation (self_s (snd (RC4_PRGA_body st)))"
  by (simp add: RC4_PRGA_body_def Let_def is_permutation_swap)

lemma RCPlus_body_permutation:
  "is_permutation (self_s st) \<Longrightarrow> is_permutation (self_s (snd (RCPlus_PRGA_body st)))"
  by (simp add: RCPlus_PRGA_body_def Let_def update_update_swap is_permutation_swap)

lemma VMPC_body_permutation:
  "is_permutation (self_s st) \<Longrightarrow> self_i st < 256 \<Longrightarrow>
     is_permutation (self_s (snd (VMPC_PRGA_body st))) \<and> self_i (snd (VMPC_PRGA_body st)) < 256"
  by (simp add: VMPC_PRGA_body_def Let_def update_update_swap is_permutation_swap
      is_permutation_nth)

lemma RC4A_body_permutation:
  "is_permutation (self_s st) \<Longrightarrow> is_permutation (self_S2 st) \<Longrightarrow> self_i st < 256 \<Longrightarrow>
     is_permutation (self_s (snd (RC4A_PRGA_body st)))
     \<and> is_permutation (self_S2 (snd (RC4A_PRGA_body st)))
     \<and> self_i (snd (RC4A_PRGA_body st)) < 256"
  by (simp add: RC4A_PRGA_body_def Let_def is_permutation_swap)

lemma fresh_ok:
  assumes "key_ords key \<noteq> []"
  shows "\<exists>c. RC4_init key = Inr c \<and> cipher_ok c"
    and "\<exists>c. RC4A_init key skip = Inr c \<and> cipher_ok c"
    and "\<exists>c. VMPC_init key skip = Inr c \<and> cipher_ok c"
    and "\<exists>c. RCPlus_init key skip = Inr c \<and> cipher_ok c"
    and "\<exists>c. RCDrop_init key skip = Inr c \<and> cipher_ok c"
proof -
  from RC4_fields_fresh[OF assms] obtain s where
    s: "KSA key = Inr s" "is_permutation s"
       "RC4_fields key = Inr \<lparr>self_i = 0, self_j = 0, self_s = s\<rparr>"
    by blast
  have ok: "rc4_ok \<lparr>self_i = 0, self_j = 0, self_s = s\<rparr>"
    using s(2) by (simp add: rc4_ok_def)
  have ok2: "rc4a_ok \<lparr>self_i = 0, self_j = 0, self_s = s,
                      self_S2 = s, self_j2 = 0, self_first_op = True\<rparr>"
    using s(2) by (simp add: rc4a_ok_def)
  show "\<exists>c. RC4_init key = Inr c \<and> cipher_ok c"
    using s ok by (simp add: RC4_init_def)
  show "\<exists>c. RC4A_init key skip = Inr c \<and> cipher_ok c"
    using s ok2 by (simp add: RC4A_init_def warm_up_ok)
  show "\<exists>c. VMPC_init key skip = Inr c \<and> cipher_ok c"
    using s ok by (simp add: VMPC_init_def warm_up_ok)
  show "\<exists>c. RCPlus_init key skip = Inr c \<and> cipher_ok c"
    using s ok by (simp add: RCPlus_init_def warm_up_ok)
  show "\<exists>c. RCDrop_init key skip = Inr c \<and> cipher_ok c"
    using s ok by (simp add: RCDrop_init_def warm_up_ok)
qed

text \<open>
  C5. For every key that is not empty (lengths 1 to 256 among them, any values) \<^verbatim>\<open>KSA\<close>
  returns a permutation of \<open>0..255\<close>. One pass of the body of each PRGA keeps every S-box
  of the instance a permutation: RC4's body (which RCDrop inherits) and RC4+'s from any
  counters, VMPC's and RC4A's (both S-boxes) from a counter \<open>i\<close> below 256, which they keep
  below 256. So any number of steps of \<^verbatim>\<open>self.PRGA\<close> keeps an instance of any of the five
  classes within permutations and counters below 256.
\<close>

theorem C5_permutation_invariant:
  "(key_ords key \<noteq> [] \<longrightarrow> (\<exists>s. KSA key = Inr s \<and> is_permutation s))
   \<and> (is_permutation (self_s st) \<longrightarrow>
        is_permutation (self_s (snd (RC4_PRGA_body st)))
        \<and> is_permutation (self_s (snd (RCPlus_PRGA_body st))))
   \<and> (is_permutation (self_s st) \<and> self_i st < 256 \<longrightarrow>
        is_permutation (self_s (snd (VMPC_PRGA_body st)))
        \<and> self_i (snd (VMPC_PRGA_body st)) < 256)
   \<and> (is_permutation (self_s st2) \<and> is_permutation (self_S2 st2) \<and> self_i st2 < 256 \<longrightarrow>
        is_permutation (self_s (snd (RC4A_PRGA_body st2)))
        \<and> is_permutation (self_S2 (snd (RC4A_PRGA_body st2)))
        \<and> self_i (snd (RC4A_PRGA_body st2)) < 256)
   \<and> (cipher_ok c \<longrightarrow> cipher_ok (snd (PRGA n c)))"
  using KSA_permutation[of key] RC4_body_permutation[of st] RCPlus_body_permutation[of st]
    VMPC_body_permutation[of st] RC4A_body_permutation[of st2] PRGA_ok[of c n]
  by blast

theorem C5_permutation_invariant_witness:
  "key_ords (Str (py_str ''key'')) \<noteq> []
   \<and> (\<exists>s. KSA (Str (py_str ''key'')) = Inr s \<and> is_permutation s)
   \<and> is_permutation (self_s \<lparr>self_i = 0, self_j = 0, self_s = [0..<256]\<rparr>)
   \<and> self_i \<lparr>self_i = 0, self_j = 0, self_s = [0..<256]\<rparr> < 256
   \<and> is_permutation
        (self_s (snd (RC4_PRGA_body \<lparr>self_i = 0, self_j = 0, self_s = [0..<256]\<rparr>)))
   \<and> is_permutation
        (self_s (snd (RCPlus_PRGA_body \<lparr>self_i = 0, self_j = 0, self_s = [0..<256]\<rparr>)))
   \<and> is_permutation
        (self_s (snd (VMPC_PRGA_body \<lparr>self_i = 0, self_j = 0, self_s = [0..<256]\<rparr>)))
   \<and> is_permutation
        (self_S2 \<lparr>self_i = 0, self_j = 0, self_s = [0..<256],
                  self_S2 = [0..<256], self_j2 = 0, self_first_op = False\<rparr>)
   \<and> is_permutation
        (self_S2 (snd (RC4A_PRGA_body
           \<lparr>self_i = 0, self_j = 0, self_s = [0..<256],
            self_S2 = [0..<256], self_j2 = 0, self_first_op = False\<rparr>)))
   \<and> cipher_ok (RCDrop_obj \<lparr>self_i = 0, self_j = 0, self_s = [0..<256]\<rparr>)
   \<and> cipher_ok (snd (PRGA 768 (RCDrop_obj \<lparr>self_i = 0, self_j = 0, self_s = [0..<256]\<rparr>)))"
proof -
  let ?st = "\<lparr>self_i = 0, self_j = 0, self_s = [0..<256]\<rparr>"
  let ?st2 = "\<lparr>self_i = 0, self_j = 0, self_s = [0..<256],
              self_S2 = [0..<256], self_j2 = 0, self_first_op = False\<rparr>"
  have h: "key_ords (Str (py_str ''key'')) \<noteq> []"
    by (simp add: py_str_def)
  have p: "is_permutation (self_s ?st)" "self_i ?st < 256"
    by (simp_all add: is_permutation_upt)
  have p2: "is_permutation (self_s ?st2)" "is_permutation (self_S2 ?st2)" "self_i ?st2 < 256"
    by (simp_all add: is_permutation_upt)
  have c: "cipher_ok (RCDrop_obj ?st)"
    by (simp add: rc4_ok_def is_permutation_upt)
  from C5_permutation_invariant[of "Str (py_str ''key'')" ?st ?st2 "RCDrop_obj ?st" 768]
       h p p2 c
  show ?thesis
    by blast
qed

section \<open>Decrypting with a second instance\<close>

lemma encode_decode_twice:
  assumes "cipher_ok self" "list_all (\<lambda>b. b < 256) P"
  shows "\<exists>C self'. encode_decode self P = Inr (C, self')
           \<and> encode_decode self C = Inr (P, self')"
proof -
  let ?ks = "fst (PRGA (length P) self)"
  let ?C = "map2 (XOR) P ?ks"
  have len: "length ?C = length P"
    by (simp add: PRGA_length)
  have bytes: "list_all (\<lambda>b. b < 256) ?C"
    using assms by (intro map2_xor_bytes PRGA_bytes)
  have "encode_decode self ?C = Inr (map2 (XOR) ?C ?ks, snd (PRGA (length P) self))"
    using encode_decode_eq[OF assms(1) bytes] by (simp only: len)
  then have "encode_decode self ?C = Inr (P, snd (PRGA (length P) self))"
    by (simp add: map2_xor_twice PRGA_length)
  with encode_decode_eq[OF assms] show ?thesis
    by blast
qed

lemma utf8_decode_test: "utf8_decode [116, 101, 115, 116] = Inr (py_str ''test'')"
  by (simp add: py_str_def decoded_def)

lemma RC4_key_decode_test:
  "\<exists>self self'. RC4_init (Str (py_str ''key'')) = Inr self
     \<and> decode_str self [127, 9, 71, 153] = Inr (py_str ''test'', self')"
proof -
  let ?self = "RC4_obj (abs_rc4 (0, 0, key_sbox))"
  have init: "RC4_init (Str (py_str ''key'')) = Inr ?self"
    by (simp add: RC4_init_def RC4_fields_key)
  have ok: "cipher_ok ?self"
    by (simp add: key_fresh3)
  have ks: "fst (PRGA 4 ?self) = [11, 108, 52, 237]"
    by (simp add: RC4_PRGA_ev[OF key_fresh3] ks_RC4_key)
  have len: "length [127, 9, 71, 153 :: nat] = 4" by simp
  have bytes: "list_all (\<lambda>b. b < 256) [127, 9, 71, 153 :: nat]" by simp
  have x: "map2 (XOR) [127, 9, 71, 153] [11, 108, 52, 237] = [116, 101, 115, 116 :: nat]"
    by simp
  from encode_decode_eq[OF ok bytes]
  have "encode_decode ?self [127, 9, 71, 153] = Inr ([116, 101, 115, 116], snd (PRGA 4 ?self))"
    by (simp only: len ks x)
  then have "decode_str ?self [127, 9, 71, 153] = Inr (py_str ''test'', snd (PRGA 4 ?self))"
    by (simp only: decode_str_def sum.case prod.case utf8_decode_test)
  with init show ?thesis by blast
qed

text \<open>
  C6. For each of the five constructors, every key that is not empty, every skip and every
  plaintext \<open>P\<close> of bytes: the constructor returns an instance; \<^verbatim>\<open>encode_decode\<close> of that
  instance on \<open>P\<close> returns a ciphertext \<open>C\<close>; and \<^verbatim>\<open>encode_decode\<close> of an instance built
  by the same constructor call (the same value: construction is a function of the key and
  the skip) on \<open>C\<close> returns \<open>P\<close>. And \<^verbatim>\<open>RC4('key').decode_str([127, 9, 71, 153])\<close> is
  \<^verbatim>\<open>'test'\<close>.
\<close>

theorem C6_involution:
  "(key_ords key \<noteq> [] \<and> list_all (\<lambda>b. b < 256) P
      \<and> new \<in> {RC4_init key, RC4A_init key skip, VMPC_init key skip,
                RCPlus_init key skip, RCDrop_init key skip}
     \<longrightarrow> (\<exists>self1 self2 C self1' self2'.
            new = Inr self1 \<and> new = Inr self2
            \<and> encode_decode self1 P = Inr (C, self1')
            \<and> encode_decode self2 C = Inr (P, self2')))
   \<and> (\<exists>self self'. RC4_init (Str (py_str ''key'')) = Inr self
         \<and> decode_str self [127, 9, 71, 153] = Inr (py_str ''test'', self'))"
proof (intro conjI impI)
  assume a: "key_ords key \<noteq> [] \<and> list_all (\<lambda>b. b < 256) P
      \<and> new \<in> {RC4_init key, RC4A_init key skip, VMPC_init key skip,
                RCPlus_init key skip, RCDrop_init key skip}"
  then have h: "key_ords key \<noteq> []" by blast
  note f = fresh_ok[OF h]
  have "\<exists>c. new = Inr c \<and> cipher_ok c"
    using a f(1) f(2)[of skip] f(3)[of skip] f(4)[of skip] f(5)[of skip] by auto
  then obtain c where c: "new = Inr c" "cipher_ok c" by blast
  from encode_decode_twice[OF c(2)] a c(1)
  show "\<exists>self1 self2 C self1' self2'.
            new = Inr self1 \<and> new = Inr self2
            \<and> encode_decode self1 P = Inr (C, self1')
            \<and> encode_decode self2 C = Inr (P, self2')"
    by blast
next
  show "\<exists>self self'. RC4_init (Str (py_str ''key'')) = Inr self
         \<and> decode_str self [127, 9, 71, 153] = Inr (py_str ''test'', self')"
    by (rule RC4_key_decode_test)
qed

theorem C6_involution_witness:
  "key_ords (Bytes [1, 2, 3]) \<noteq> [] \<and> list_all (\<lambda>b. b < 256) [104, 105 :: nat]
   \<and> VMPC_init (Bytes [1, 2, 3]) 5
        \<in> {RC4_init (Bytes [1, 2, 3]), RC4A_init (Bytes [1, 2, 3]) 5,
            VMPC_init (Bytes [1, 2, 3]) 5, RCPlus_init (Bytes [1, 2, 3]) 5,
            RCDrop_init (Bytes [1, 2, 3]) 5}
   \<and> (\<exists>self1 self2 C self1' self2'.
         VMPC_init (Bytes [1, 2, 3]) 5 = Inr self1 \<and> VMPC_init (Bytes [1, 2, 3]) 5 = Inr self2
         \<and> encode_decode self1 [104, 105] = Inr (C, self1')
         \<and> encode_decode self2 C = Inr ([104, 105], self2'))"
proof -
  have h: "key_ords (Bytes [1, 2, 3]) \<noteq> []" "list_all (\<lambda>b. b < 256) [104, 105 :: nat]"
    by simp_all
  have m: "VMPC_init (Bytes [1, 2, 3]) 5
        \<in> {RC4_init (Bytes [1, 2, 3]), RC4A_init (Bytes [1, 2, 3]) 5,
            VMPC_init (Bytes [1, 2, 3]) 5, RCPlus_init (Bytes [1, 2, 3]) 5,
            RCDrop_init (Bytes [1, 2, 3]) 5}"
    by blast
  from C6_involution[of "Bytes [1, 2, 3]" "[104, 105]" "VMPC_init (Bytes [1, 2, 3]) 5" 5] h m
  show ?thesis
    by blast
qed

section \<open>The empty key\<close>

lemma empty_key_class:
  assumes "key_len key = 0"
  shows "KSA key = Inl ZeroDivisionError"
    and "RC4_init key = Inl ZeroDivisionError"
    and "RC4A_init key skip = Inl ZeroDivisionError"
    and "VMPC_init key skip = Inl ZeroDivisionError"
    and "RCPlus_init key skip = Inl ZeroDivisionError"
    and "RCDrop_init key skip = Inl ZeroDivisionError"
proof -
  have e: "key_ords key = []" using assms by (cases key) simp_all
  show "KSA key = Inl ZeroDivisionError"
    by (simp add: KSA_def e KSA_loop_empty_key)
  show "RC4_init key = Inl ZeroDivisionError"
    by (simp add: RC4_init_def RC4_fields_empty[OF e])
  show "RC4A_init key skip = Inl ZeroDivisionError"
    by (simp add: RC4A_init_def RC4_fields_empty[OF e])
  show "VMPC_init key skip = Inl ZeroDivisionError"
    by (simp add: VMPC_init_def RC4_fields_empty[OF e])
  show "RCPlus_init key skip = Inl ZeroDivisionError"
    by (simp add: RCPlus_init_def RC4_fields_empty[OF e])
  show "RCDrop_init key skip = Inl ZeroDivisionError"
    by (simp add: RCDrop_init_def RC4_fields_empty[OF e])
qed

lemma empty_key_rc4: "key_len key = 0 \<Longrightarrow> rc4 key input_bytes iv = Inl AssertionError"
  by (simp add: rc4_def)

text \<open>
  C9, as the claim states it, fails at the alternate entry point: with an empty key
  \<^verbatim>\<open>rc4\<close> stops at its own \<^verbatim>\<open>assert len(key) > 0\<close>, before its S-box loop, and the
  failure is an \<^verbatim>\<open>AssertionError\<close>, not a division by zero.
\<close>

theorem C9_counterexample:
  "rc4 (Bytes []) [116, 101, 115, 116] [] = Inl AssertionError
   \<and> rc4 (Bytes []) [116, 101, 115, 116] [] \<noteq> Inl ZeroDivisionError"
  by (simp add: rc4_def)

text \<open>
  C9, amended. With a key of length zero every constructor of the five classes fails with
  the \<^verbatim>\<open>ZeroDivisionError\<close> that \<^verbatim>\<open>i % key_length\<close> raises in \<^verbatim>\<open>KSA\<close>, and the
  alternate entry point fails with the \<^verbatim>\<open>AssertionError\<close> of its guard; in both cases
  the call returns the error alone, no instance and no output.
\<close>

theorem C9_empty_key:
  "key_len key = 0 \<longrightarrow>
     KSA key = Inl ZeroDivisionError
     \<and> RC4_init key = Inl ZeroDivisionError
     \<and> RC4A_init key skip = Inl ZeroDivisionError
     \<and> VMPC_init key skip = Inl ZeroDivisionError
     \<and> RCPlus_init key skip = Inl ZeroDivisionError
     \<and> RCDrop_init key skip = Inl ZeroDivisionError
     \<and> rc4 key input_bytes iv = Inl AssertionError"
proof
  assume a: "key_len key = 0"
  note c = empty_key_class[OF a]
  show "KSA key = Inl ZeroDivisionError
     \<and> RC4_init key = Inl ZeroDivisionError
     \<and> RC4A_init key skip = Inl ZeroDivisionError
     \<and> VMPC_init key skip = Inl ZeroDivisionError
     \<and> RCPlus_init key skip = Inl ZeroDivisionError
     \<and> RCDrop_init key skip = Inl ZeroDivisionError
     \<and> rc4 key input_bytes iv = Inl AssertionError"
    using c(1) c(2) c(3)[of skip] c(4)[of skip] c(5)[of skip] c(6)[of skip]
      empty_key_rc4[OF a, of input_bytes iv]
    by (intro conjI)
qed

theorem C9_empty_key_witness:
  "key_len (Str []) = 0
   \<and> KSA (Str []) = Inl ZeroDivisionError
   \<and> RC4_init (Str []) = Inl ZeroDivisionError
   \<and> RC4A_init (Str []) 0 = Inl ZeroDivisionError
   \<and> VMPC_init (Str []) 0 = Inl ZeroDivisionError
   \<and> RCPlus_init (Str []) 0 = Inl ZeroDivisionError
   \<and> RCDrop_init (Str []) 768 = Inl ZeroDivisionError
   \<and> rc4 (Str []) [116, 101, 115, 116] [254, 2] = Inl AssertionError"
proof -
  have h: "key_len (Str []) = 0" by simp
  from C9_empty_key[of "Str []" 0 "[116, 101, 115, 116]" "[254, 2]"]
       C9_empty_key[of "Str []" 768 "[116, 101, 115, 116]" "[254, 2]"] h
  show ?thesis
    by blast
qed

section \<open>A fresh RC4A instance\<close>

text \<open>
  C10. For every key that is not empty, \<^verbatim>\<open>RC4A(key)\<close> (no skip) returns an instance
  whose second S-box is equal to its first, both being what \<^verbatim>\<open>KSA\<close> returns on the key,
  with the three counters at 0 and the flag at the first phase.
\<close>

theorem C10_RC4A_fresh:
  "key_ords key \<noteq> [] \<longrightarrow>
     (\<exists>st. RC4A_init key 0 = Inr (RC4A_obj st)
        \<and> self_S2 st = self_s st \<and> KSA key = Inr (self_s st)
        \<and> self_i st = 0 \<and> self_j st = 0 \<and> self_j2 st = 0 \<and> self_first_op st)"
proof
  assume "key_ords key \<noteq> []"
  from KSA_permutation[OF this] obtain s where "KSA key = Inr s" by blast
  then show "\<exists>st. RC4A_init key 0 = Inr (RC4A_obj st)
        \<and> self_S2 st = self_s st \<and> KSA key = Inr (self_s st)
        \<and> self_i st = 0 \<and> self_j st = 0 \<and> self_j2 st = 0 \<and> self_first_op st"
    by (simp add: RC4A_init_def RC4_fields_def warm_up_def)
qed

theorem C10_RC4A_fresh_witness:
  "key_ords (Str (py_str ''key'')) \<noteq> []
   \<and> (\<exists>st. RC4A_init (Str (py_str ''key'')) 0 = Inr (RC4A_obj st)
         \<and> self_S2 st = self_s st)"
proof -
  have h: "key_ords (Str (py_str ''key'')) \<noteq> []"
    by (simp add: py_str_def)
  from C10_RC4A_fresh[of "Str (py_str ''key'')"] h show ?thesis
    by blast
qed

section \<open>The single function and the class\<close>

lemma take_256_nth:
  assumes "key \<noteq> []" "i < 256"
  shows "take 256 key \<noteq> []"
    and "take 256 key ! (i mod length (take 256 key)) = key ! (i mod length key)"
proof -
  show "take 256 key \<noteq> []" using assms(1) by simp
  show "take 256 key ! (i mod length (take 256 key)) = key ! (i mod length key)"
  proof (cases "length key \<le> 256")
    case True
    then show ?thesis by simp
  next
    case False
    then have "length (take 256 key) = 256" "i mod length key = i"
      using assms(2) by simp_all
    then show ?thesis using assms(2) by simp
  qed
qed

lemma KSA_loop_take:
  "key \<noteq> [] \<Longrightarrow> list_all (\<lambda>i. i < 256) is \<Longrightarrow>
     KSA_loop (take 256 key) is j s = KSA_loop key is j s"
proof (induction "is" arbitrary: j s)
  case Nil
  then show ?case by simp
next
  case (Cons i "is")
  have i: "i < 256" using Cons.prems(2) by simp
  have ne: "length (take 256 key) \<noteq> 0" "length key \<noteq> 0"
    using Cons.prems(1) by simp_all
  have "KSA_loop (take 256 key) (i # is) j s
          = (let j' = (j + s ! i + take 256 key ! (i mod length (take 256 key))) AND 0xFF
             in KSA_loop (take 256 key) is j' (swap s i j'))"
    using ne(1) by (simp only: KSA_loop.simps py_mod_def if_False sum.case)
  also have "\<dots> = (let j' = (j + s ! i + key ! (i mod length key)) AND 0xFF
             in KSA_loop key is j' (swap s i j'))"
    using Cons.IH[OF Cons.prems(1)] Cons.prems(2)
    by (simp only: take_256_nth(2)[OF Cons.prems(1) i] Let_def) simp
  also have "\<dots> = KSA_loop key (i # is) j s"
    using ne(2) by (simp only: KSA_loop.simps py_mod_def if_False sum.case)
  finally show ?case .
qed

lemma rc4_skip_loop_PRGA:
  "rc4_skip_loop n i j s
     = spec_of_rc4 (snd (RC4_PRGA n \<lparr>self_i = i, self_j = j, self_s = s\<rparr>))"
  by (induction n arbitrary: i j s)
     (simp_all add: RC4_PRGA_def RC4_PRGA_body_def Let_def case_prod_beta spec_of_rc4_def)

lemma list_all_update:
  "list_all P xs \<Longrightarrow> P v \<Longrightarrow> list_all P (xs[m := v])"
  by (induction xs arbitrary: m) (auto split: nat.splits)

lemma rc4_xor_loop_PRGA:
  "rc4_ok \<lparr>self_i = i, self_j = j, self_s = s\<rparr> \<Longrightarrow> list_all (\<lambda>b. b < 256) out \<Longrightarrow>
     m + n = length out \<Longrightarrow>
     rc4_xor_loop [m..<m + n] i j s out
       = Inr (take m out
              @ map2 (XOR) (drop m out)
                  (fst (RC4_PRGA n \<lparr>self_i = i, self_j = j, self_s = s\<rparr>)))"
proof (induction n arbitrary: m i j s out)
  case 0
  then show ?case by (simp add: RC4_PRGA_def)
next
  case (Suc n)
  let ?st = "\<lparr>self_i = i, self_j = j, self_s = s\<rparr>"
  let ?i = "(i + 1) AND 0xFF"
  let ?j = "(j + s ! ?i) AND 0xFF"
  let ?s = "swap s ?i ?j"
  let ?k = "?s ! ((?s ! ?i + ?s ! ?j) AND 0xFF)"
  let ?st' = "\<lparr>self_i = ?i, self_j = ?j, self_s = ?s\<rparr>"
  let ?b = "out ! m XOR ?k"
  have body: "RC4_PRGA_body ?st = (?k, ?st')"
    by (simp add: RC4_PRGA_body_def Let_def)
  have ok': "rc4_ok ?st'"
    using RC4_body_ok[OF Suc.prems(1)] by (simp add: body)
  have k: "?k < 256"
    using RC4_body_out[OF Suc.prems(1)] by (simp add: body)
  have m: "m < length out" using Suc.prems(3) by simp
  then have "out ! m < 256"
    using Suc.prems(2) by (simp add: list_all_length)
  then have b: "?b < 256" using k by (rule xor_less_256)
  have bytes': "list_all (\<lambda>b. b < 256) (out[m := ?b])"
    using Suc.prems(2) b by (rule list_all_update)
  have len': "Suc m + n = length (out[m := ?b])" using Suc.prems(3) by simp
  have up: "[m..<m + Suc n] = m # [Suc m..<Suc m + n]"
    by (simp add: upt_conv_Cons)
  have "rc4_xor_loop [m..<m + Suc n] i j s out
          = rc4_xor_loop [Suc m..<Suc m + n] ?i ?j ?s (out[m := ?b])"
    unfolding up using b by (simp add: Let_def)
  also have "\<dots> = Inr (take (Suc m) (out[m := ?b])
                       @ map2 (XOR) (drop (Suc m) (out[m := ?b])) (fst (RC4_PRGA n ?st')))"
    using Suc.IH[OF ok' bytes' len'] .
  also have "take (Suc m) (out[m := ?b]) = take m out @ [?b]"
    using m by (simp add: take_Suc_conv_app_nth)
  also have "drop (Suc m) (out[m := ?b]) = drop (Suc m) out"
    by simp
  finally have "rc4_xor_loop [m..<m + Suc n] i j s out
          = Inr (take m out @ ?b # map2 (XOR) (drop (Suc m) out) (fst (RC4_PRGA n ?st')))"
    by simp
  moreover have "fst (RC4_PRGA (Suc n) ?st) = ?k # fst (RC4_PRGA n ?st')"
    by (simp add: RC4_PRGA_def body case_prod_beta)
  moreover have "drop m out = out ! m # drop (Suc m) out"
    using m by (simp add: Cons_nth_drop_Suc)
  ultimately show ?case by simp
qed

lemma sum_list_enumerate:
  "sum_list (map (\<lambda>(i, c). push_bit i c) (enumerate 0 xs)) = (\<Sum>k<length xs. xs ! k * 2 ^ k)"
proof -
  have "sum_list (map (\<lambda>(i, c). push_bit i c) (enumerate 0 xs))
          = (\<Sum>k = 0..<length xs. (map (\<lambda>(i, c). push_bit i c) (enumerate 0 xs)) ! k)"
    by (simp add: sum_list_sum_nth)
  also have "\<dots> = (\<Sum>k = 0..<length xs. xs ! k * 2 ^ k)"
    by (rule sum.cong) (simp_all add: nth_enumerate_eq push_bit_eq_mult)
  finally show ?thesis by (simp add: lessThan_atLeast0)
qed

lemma rc4_skip_spec: "rc4_skip iv = spec_skip iv"
proof -
  have "(\<Sum>k<length (take 16 iv). take 16 iv ! k * 2 ^ k) = (\<Sum>k<min 16 (length iv). iv ! k * 2 ^ k)"
    by (rule sum.cong) (simp_all add: min.commute)
  then show ?thesis
    by (simp add: rc4_skip_def spec_skip_def sum_list_enumerate and_65535_mod)
qed

lemma key_len_ords: "key_len key = length (key_ords key)"
  by (cases key) simp_all

lemma rc4_sbox_KSA:
  assumes "key_ords key \<noteq> []"
  shows "rc4_sbox_loop (case key of Str cs \<Rightarrow> take 256 cs | Bytes bs \<Rightarrow> bs) [0..<256] 0 [0..<256]
           = KSA key"
proof (cases key)
  case (Str cs)
  with assms show ?thesis
    by (simp add: rc4_sbox_loop_KSA_loop KSA_def KSA_loop_take list_all_upt)
next
  case (Bytes bs)
  then show ?thesis
    by (simp add: rc4_sbox_loop_KSA_loop KSA_def)
qed

lemma rc4_xor_loop_state:
  assumes "rc4_ok st" "list_all (\<lambda>b. b < 256) out"
  shows "rc4_xor_loop [0..<length out] (self_i st) (self_j st) (self_s st) out
           = Inr (map2 (XOR) out (fst (RC4_PRGA (length out) st)))"
proof -
  obtain i j s where st: "st = \<lparr>self_i = i, self_j = j, self_s = s\<rparr>"
    by (cases st) simp
  from rc4_xor_loop_PRGA[of i j s out 0 "length out"] assms show ?thesis
    unfolding st by simp
qed

lemma rc4_eq:
  assumes "key_ords key \<noteq> []" "list_all (\<lambda>b. b < 256) input_bytes"
  shows "\<exists>st. RC4_fields key = Inr st \<and> rc4_ok st
           \<and> rc4 key input_bytes iv
               = Inr (map2 (XOR) input_bytes
                   (fst (RC4_PRGA (length input_bytes)
                      (snd (RC4_PRGA (if iv = [] then 0 else rc4_skip iv) st)))))"
proof -
  from RC4_fields_fresh[OF assms(1)] obtain s where
    s: "KSA key = Inr s" "is_permutation s"
       "RC4_fields key = Inr \<lparr>self_i = 0, self_j = 0, self_s = s\<rparr>"
    by blast
  let ?st = "\<lparr>self_i = 0, self_j = 0, self_s = s\<rparr>"
  define n where "n = (if iv = [] then 0 else rc4_skip iv)"
  define st' where "st' = snd (RC4_PRGA n ?st)"
  have ok: "rc4_ok ?st" using s(2) by (simp add: rc4_ok_def)
  have ok': "rc4_ok st'" unfolding st'_def using ok by (rule RC4_PRGA_ok)
  have "(if iv \<noteq> [] then rc4_skip_loop (rc4_skip iv) 0 0 s else (0, 0, s))
          = spec_of_rc4 (snd (RC4_PRGA n ?st))"
    by (simp add: n_def rc4_skip_loop_PRGA spec_of_rc4_def RC4_PRGA_def)
  then have skip: "(if iv \<noteq> [] then rc4_skip_loop (rc4_skip iv) 0 0 s else (0, 0, s))
          = (self_i st', self_j st', self_s st')"
    by (simp only: st'_def spec_of_rc4_def)
  note x = rc4_xor_loop_state[OF ok' assms(2)]
  have len: "key_len key > 0" using assms(1) by (simp add: key_len_ords)
  have "rc4 key input_bytes iv
          = Inr (map2 (XOR) input_bytes (fst (RC4_PRGA (length input_bytes) st')))"
    unfolding rc4_def Let_def rc4_sbox_KSA[OF assms(1)] s(1) sum.case skip prod.case
    using len x by simp
  with s(3) ok show ?thesis unfolding st'_def n_def by blast
qed

lemma RC4_fields_ev:
  assumes "key_ords key \<noteq> []"
  shows "RC4_fields key = Inr (abs_rc4 (0, 0, ev_KSA (key_ords key) 256 0 0 sbox0))"
    and "tinv3 (0, 0, ev_KSA (key_ords key) 256 0 0 sbox0)"
    and "rc4_ok (abs_rc4 (0, 0, ev_KSA (key_ords key) 256 0 0 sbox0))"
proof -
  show f: "RC4_fields key = Inr (abs_rc4 (0, 0, ev_KSA (key_ords key) 256 0 0 sbox0))"
    by (simp add: RC4_fields_def KSA_ev[OF assms] abs_rc4_def)
  show "tinv3 (0, 0, ev_KSA (key_ords key) 256 0 0 sbox0)"
    by (simp add: tinv3_def ev_KSA_full tfull_sbox0)
  from KSA_permutation[OF assms]
  show "rc4_ok (abs_rc4 (0, 0, ev_KSA (key_ords key) 256 0 0 sbox0))"
    by (simp add: KSA_ev[OF assms] rc4_ok_def abs_rc4_def)
qed

lemma ks_Key_Plaintext:
  "map2 (XOR) [80, 108, 97, 105, 110, 116, 101, 120, 116]
     (ev_run ev_RC4 9 (0, 0, ev_KSA [75, 101, 121] 256 0 0 sbox0))
   = [0xBB, 0xF3, 0x16, 0xE8, 0xD9, 0x40, 0xAF, 0x0A, 0xD3]"
  by (simp del: ev_dels add: ev_rules)

lemma rc4_Key_Plaintext:
  "rc4 (Bytes (py_str ''Key'')) (py_str ''Plaintext'') []
     = Inr [0xBB, 0xF3, 0x16, 0xE8, 0xD9, 0x40, 0xAF, 0x0A, 0xD3]"
proof -
  have k: "key_ords (Bytes (py_str ''Key'')) = [75, 101, 121]"
    and p: "py_str ''Plaintext'' = [80, 108, 97, 105, 110, 116, 101, 120, 116]"
    by (simp_all add: py_str_def)
  have ne: "key_ords (Bytes (py_str ''Key'')) \<noteq> []" by (simp add: py_str_def)
  have bytes: "list_all (\<lambda>b. b < 256) [80, 108, 97, 105, 110, 116, 101, 120, 116 :: nat]"
    by simp
  have len: "length [80, 108, 97, 105, 110, 116, 101, 120, 116 :: nat] = 9" by simp
  note f = RC4_fields_ev[OF ne, unfolded k]
  from rc4_eq[OF ne bytes, of "[]"]
  have "rc4 (Bytes (py_str ''Key'')) [80, 108, 97, 105, 110, 116, 101, 120, 116] []
          = Inr (map2 (XOR) [80, 108, 97, 105, 110, 116, 101, 120, 116]
              (fst (RC4_PRGA 9 (abs_rc4 (0, 0, ev_KSA [75, 101, 121] 256 0 0 sbox0)))))"
    unfolding f(1) len by (simp add: RC4_PRGA_def)
  then show ?thesis
    unfolding p RC4_PRGA_ev[OF f(2) f(3)] fst_conv ks_Key_Plaintext .
qed

lemma rc4_empty_iv_class:
  assumes "key_ords key \<noteq> []" "list_all (\<lambda>b. b < 256) input_bytes"
  shows "\<exists>self out self'. RC4_init key = Inr self
           \<and> encode_decode self input_bytes = Inr (out, self')
           \<and> rc4 key input_bytes [] = Inr out"
proof -
  from rc4_eq[OF assms, of "[]"] obtain st where
    st: "RC4_fields key = Inr st" "rc4_ok st"
        "rc4 key input_bytes []
           = Inr (map2 (XOR) input_bytes (fst (RC4_PRGA (length input_bytes) st)))"
    by (auto simp: RC4_PRGA_def)
  have ok: "cipher_ok (RC4_obj st)" using st(2) by simp
  have "encode_decode (RC4_obj st) input_bytes
          = Inr (map2 (XOR) input_bytes (fst (RC4_PRGA (length input_bytes) st)),
                 snd (PRGA (length input_bytes) (RC4_obj st)))"
    using encode_decode_eq[OF ok assms(2)] by (simp add: case_prod_beta)
  with st show ?thesis
    by (simp add: RC4_init_def)
qed

text \<open>
  C7. The alternate entry point is baseline RC4 with a drop derived from the IV. The skip
  count the code computes is the specification's
  \<open>(510 + \<Sum> iv[k] << k) mod 65536\<close> over at most the first 16 bytes. For every key that
  is not empty, every input of bytes and every IV, \<^verbatim>\<open>rc4\<close> returns the input XORed with
  the key stream that the fresh fields of \<^verbatim>\<open>RC4(key)\<close> give after that many discarded
  steps, none when the IV is empty. With an empty IV its output is what
  \<^verbatim>\<open>RC4(key).encode_decode\<close> returns. Key \<^verbatim>\<open>'Key'\<close> and plaintext \<^verbatim>\<open>'Plaintext'\<close> give
  \<^verbatim>\<open>BBF316E8D940AF0AD3\<close>.
\<close>

theorem C7_rc4_entry_point:
  "rc4_skip iv = spec_skip iv
   \<and> (key_len key > 0 \<and> list_all (\<lambda>b. b < 256) input_bytes \<longrightarrow>
        (\<exists>st. RC4_fields key = Inr st
           \<and> rc4 key input_bytes iv
               = Inr (map2 (XOR) input_bytes
                   (fst (RC4_PRGA (length input_bytes)
                      (snd (RC4_PRGA (if iv = [] then 0 else spec_skip iv) st))))))
        \<and> (\<exists>self out self'. RC4_init key = Inr self
              \<and> encode_decode self input_bytes = Inr (out, self')
              \<and> rc4 key input_bytes [] = Inr out))
   \<and> rc4 (Bytes (py_str ''Key'')) (py_str ''Plaintext'') []
        = Inr [0xBB, 0xF3, 0x16, 0xE8, 0xD9, 0x40, 0xAF, 0x0A, 0xD3]"
proof (intro conjI impI)
  show "rc4_skip iv = spec_skip iv" by (rule rc4_skip_spec)
next
  assume a: "key_len key > 0 \<and> list_all (\<lambda>b. b < 256) input_bytes"
  then have ne: "key_ords key \<noteq> []" by (simp add: key_len_ords)
  from rc4_eq[OF ne, of input_bytes iv] a
  show "\<exists>st. RC4_fields key = Inr st
           \<and> rc4 key input_bytes iv
               = Inr (map2 (XOR) input_bytes
                   (fst (RC4_PRGA (length input_bytes)
                      (snd (RC4_PRGA (if iv = [] then 0 else spec_skip iv) st)))))"
    unfolding rc4_skip_spec by blast
next
  assume a: "key_len key > 0 \<and> list_all (\<lambda>b. b < 256) input_bytes"
  then have ne: "key_ords key \<noteq> []" by (simp add: key_len_ords)
  from rc4_empty_iv_class[OF ne, of input_bytes] a
  show "\<exists>self out self'. RC4_init key = Inr self
              \<and> encode_decode self input_bytes = Inr (out, self')
              \<and> rc4 key input_bytes [] = Inr out"
    by blast
next
  show "rc4 (Bytes (py_str ''Key'')) (py_str ''Plaintext'') []
        = Inr [0xBB, 0xF3, 0x16, 0xE8, 0xD9, 0x40, 0xAF, 0x0A, 0xD3]"
    by (rule rc4_Key_Plaintext)
qed

theorem C7_rc4_entry_point_witness:
  "key_len (Bytes [1, 2, 3]) > 0 \<and> list_all (\<lambda>b. b < 256) [104, 105 :: nat]
   \<and> (\<exists>st. RC4_fields (Bytes [1, 2, 3]) = Inr st
         \<and> rc4 (Bytes [1, 2, 3]) [104, 105] [254, 2]
             = Inr (map2 (XOR) [104, 105]
                 (fst (RC4_PRGA (length [104, 105 :: nat])
                    (snd (RC4_PRGA (if [254, 2 :: nat] = [] then 0 else spec_skip [254, 2])
                       st))))))
   \<and> (\<exists>self out self'. RC4_init (Bytes [1, 2, 3]) = Inr self
         \<and> encode_decode self [104, 105] = Inr (out, self')
         \<and> rc4 (Bytes [1, 2, 3]) [104, 105] [] = Inr out)"
proof -
  have h: "key_len (Bytes [1, 2, 3]) > 0 \<and> list_all (\<lambda>b. b < 256) [104, 105 :: nat]"
    by simp
  from C7_rc4_entry_point[of "[254, 2]" "Bytes [1, 2, 3]" "[104, 105]"] h show ?thesis
    by blast
qed

section \<open>Dropping the head of the key stream\<close>

lemma RCDrop_skip_equivalence:
  assumes "key_ords key \<noteq> []"
  shows "\<exists>fresh dropped. RC4_init key = Inr fresh \<and> RCDrop_init key s = Inr dropped
           \<and> fst (PRGA N dropped) = drop s (fst (PRGA (s + N) fresh))"
proof -
  from RC4_fields_fresh[OF assms] obtain st where st: "RC4_fields key = Inr st"
    by blast
  have "fst (PRGA N (warm_up s (RCDrop_obj st))) = drop s (fst (PRGA (s + N) (RC4_obj st)))"
    by (simp add: warm_up_PRGA case_prod_beta RC4_PRGA_def PRGA_loop_add PRGA_loop_length)
  with st show ?thesis
    by (simp add: RC4_init_def RCDrop_init_def)
qed

lemma rc4_skip_equivalence:
  assumes "key_ords key \<noteq> []" "list_all (\<lambda>b. b < 256) input_bytes" "iv \<noteq> []"
  shows "\<exists>fresh. RC4_init key = Inr fresh
           \<and> rc4 key input_bytes iv
               = Inr (map2 (XOR) input_bytes
                   (drop (rc4_skip iv) (fst (PRGA (rc4_skip iv + length input_bytes) fresh))))"
proof -
  from rc4_eq[OF assms(1,2), of iv] assms(3) obtain st where
    st: "RC4_fields key = Inr st"
        "rc4 key input_bytes iv
           = Inr (map2 (XOR) input_bytes
               (fst (RC4_PRGA (length input_bytes) (snd (RC4_PRGA (rc4_skip iv) st)))))"
    by auto
  have "drop (rc4_skip iv) (fst (PRGA (rc4_skip iv + length input_bytes) (RC4_obj st)))
          = fst (RC4_PRGA (length input_bytes) (snd (RC4_PRGA (rc4_skip iv) st)))"
    by (simp add: case_prod_beta RC4_PRGA_def PRGA_loop_add PRGA_loop_length)
  with st show ?thesis
    by (simp add: RC4_init_def)
qed

lemma ks_RCDrop_key_4096:
  "ev_run ev_RC4 4 (ev_skip ev_RC4 4096 (0, 0, key_sbox)) = [17, 46, 176, 174]"
  by (simp del: ev_dels add: ev_rules key_sbox_def)

lemma xor_test_4096:
  "map2 (XOR) [116, 101, 115, 116] [17, 46, 176, 174] = [101, 75, 195, 218 :: nat]"
  by simp

lemma RCDrop_key_4096_test:
  "\<exists>self self'. RCDrop_init (Str (py_str ''key'')) 4096 = Inr self
     \<and> encode_str self (py_str ''test'') = Inr ([101, 75, 195, 218], self')"
proof -
  let ?x = "ev_skip ev_RC4 4096 (0, 0, key_sbox)"
  let ?self = "RCDrop_obj (abs_rc4 ?x)"
  note inv = RC4_skip_inv[OF key_fresh3, of 4096]
  have "RCDrop_init (Str (py_str ''key'')) 4096
          = Inr (RCDrop_obj (snd (RC4_PRGA 4096 (abs_rc4 (0, 0, key_sbox)))))"
    by (simp add: RCDrop_init_def RC4_fields_key warm_up_PRGA case_prod_beta)
  then have init: "RCDrop_init (Str (py_str ''key'')) 4096 = Inr ?self"
    by (simp only: RC4_PRGA_ev[OF key_fresh3] snd_conv)
  have ok: "cipher_ok ?self"
    using inv by simp
  have ks: "fst (PRGA 4 ?self) = [17, 46, 176, 174]"
    using RC4_PRGA_ev[OF conjunct1[OF inv] conjunct2[OF inv], of 4]
    by (simp only: PRGA.simps ks_RCDrop_key_4096 prod.case fst_conv)
  from encode_str_test[OF ok ks] init show ?thesis
    by (simp only: xor_test_4096) blast
qed

text \<open>
  C8. Skip equivalence. For every key that is not empty, every skip \<open>s\<close> and every \<open>N\<close>: the
  \<open>N\<close> bytes that \<^verbatim>\<open>RCDrop(key, s)\<close> generates are the \<open>s + N\<close> bytes of a fresh,
  un-skipped \<^verbatim>\<open>RC4(key)\<close> with the first \<open>s\<close> dropped; the default skip of RCDrop is 768;
  and for a non-empty IV \<^verbatim>\<open>rc4\<close> XORs its input of bytes with the key stream of a fresh
  \<^verbatim>\<open>RC4(key)\<close> of length skip + \<open>len(input)\<close> with the first skip bytes dropped, skip being
  the count derived from the IV. \<^verbatim>\<open>RCDrop('key', 4096).encode_str('test')\<close> is
  \<^verbatim>\<open>[101, 75, 195, 218]\<close>.
\<close>

theorem C8_skip_equivalence:
  "(key_ords key \<noteq> [] \<longrightarrow>
      (\<exists>fresh dropped. RC4_init key = Inr fresh \<and> RCDrop_init key s = Inr dropped
         \<and> fst (PRGA N dropped) = drop s (fst (PRGA (s + N) fresh))))
   \<and> RCDrop_default key = RCDrop_init key 768
   \<and> (key_ords key \<noteq> [] \<and> list_all (\<lambda>b. b < 256) input_bytes \<and> iv \<noteq> [] \<longrightarrow>
        (\<exists>fresh. RC4_init key = Inr fresh
           \<and> rc4 key input_bytes iv
               = Inr (map2 (XOR) input_bytes
                   (drop (rc4_skip iv)
                      (fst (PRGA (rc4_skip iv + length input_bytes) fresh))))))
   \<and> (\<exists>self self'. RCDrop_init (Str (py_str ''key'')) 4096 = Inr self
         \<and> encode_str self (py_str ''test'') = Inr ([101, 75, 195, 218], self'))"
  using RCDrop_skip_equivalence[of key s N] rc4_skip_equivalence[of key input_bytes iv]
    RCDrop_key_4096_test
  by (simp only: RCDrop_default_def) blast

theorem C8_skip_equivalence_witness:
  "key_ords (Bytes [1, 2, 3]) \<noteq> [] \<and> list_all (\<lambda>b. b < 256) [104, 105 :: nat]
   \<and> [254, 2 :: nat] \<noteq> []
   \<and> (\<exists>fresh dropped. RC4_init (Bytes [1, 2, 3]) = Inr fresh
         \<and> RCDrop_init (Bytes [1, 2, 3]) 768 = Inr dropped
         \<and> fst (PRGA 2 dropped) = drop 768 (fst (PRGA (768 + 2) fresh)))
   \<and> (\<exists>fresh. RC4_init (Bytes [1, 2, 3]) = Inr fresh
         \<and> rc4 (Bytes [1, 2, 3]) [104, 105] [254, 2]
             = Inr (map2 (XOR) [104, 105]
                 (drop (rc4_skip [254, 2])
                    (fst (PRGA (rc4_skip [254, 2] + length [104, 105 :: nat]) fresh)))))"
proof -
  have h: "key_ords (Bytes [1, 2, 3]) \<noteq> []" "list_all (\<lambda>b. b < 256) [104, 105 :: nat]"
          "[254, 2 :: nat] \<noteq> []"
    by simp_all
  from C8_skip_equivalence[of "Bytes [1, 2, 3]" 768 2 "[104, 105]" "[254, 2]"] h
  show ?thesis
    by blast
qed

end
